theory Spec2Isabelle
  imports Complex_Main
begin

section \<open>Errors\<close>

text \<open>
  Every exception the module raises, or lets a library call raise, is a value.
  The three \<^verbatim>\<open>ValueError\<close>s the module raises itself are told apart by
  their message; \<open>AssertionError\<close> is the failed \<^verbatim>\<open>assert\<close> of
  \<^verbatim>\<open>residue_categories\<close>. The others come from indexing (\<open>KeyError\<close>,
  \<open>IndexError\<close>), from numpy (\<open>EmptyReduction\<close>: a minimum or an argmin of an
  array without elements; \<open>PercentileRange\<close>), from scipy (\<open>InconsistentShapes\<close>),
  from anndata (\<open>LengthMismatch\<close>) and from networkx (\<open>NotSquare\<close>,
  \<open>NodeNotFound\<close>, \<open>NetworkXNoPath\<close>). \<open>NameError\<close> is what Python raises when
  it evaluates a name that is bound nowhere; it carries the name.
\<close>

datatype error =
    CorruptedNeighborGraph
  | MustRunVelocityGraph
  | MustProvidePath
  | BasisNotFound string
  | AssertionError
  | KeyError string
  | IndexError
  | EmptyReduction
  | PercentileRange
  | InconsistentShapes
  | LengthMismatch
  | NotSquare
  | NodeNotFound
  | NetworkXNoPath
  | NameError string

section \<open>Reference alignment of \<^verbatim>\<open>residue_categories\<close>\<close>

text \<open>
  \<^verbatim>\<open>
  pos2msa, ref_idx = {}, 0
  for idx, ch in enumerate(seq_ref_msa):
      if ch == '-':
          continue
      assert(ch == seq_ref[ref_idx])
      pos2msa[ref_idx] = idx
      ref_idx += 1
  \<close>
  The loop runs over the enumerated gapped sequence with the dictionary and the
  counter as its state. Reading \<^verbatim>\<open>seq_ref[ref_idx]\<close> past the end of the raw
  sequence raises \<open>IndexError\<close> before the comparison is made.
\<close>

fun pos2msa_loop ::
  "string \<Rightarrow> (nat \<times> char) list \<Rightarrow> (nat \<rightharpoonup> nat) \<Rightarrow> nat \<Rightarrow> error + ((nat \<rightharpoonup> nat) \<times> nat)"
where
  "pos2msa_loop seq_ref [] pos2msa ref_idx = Inr (pos2msa, ref_idx)"
| "pos2msa_loop seq_ref ((idx, ch) # rest) pos2msa ref_idx =
     (if ch = CHR ''-'' then pos2msa_loop seq_ref rest pos2msa ref_idx
      else if length seq_ref \<le> ref_idx then Inl IndexError
      else if ch \<noteq> seq_ref ! ref_idx then Inl AssertionError
      else pos2msa_loop seq_ref rest (pos2msa(ref_idx \<mapsto> idx)) (Suc ref_idx))"

definition enumerate_py :: "'a list \<Rightarrow> (nat \<times> 'a) list" where
  "enumerate_py xs = zip [0..<length xs] xs"

definition build_pos2msa :: "string \<Rightarrow> string \<Rightarrow> error + (nat \<rightharpoonup> nat)" where
  "build_pos2msa seq_ref seq_ref_msa =
     map_sum id fst (pos2msa_loop seq_ref (enumerate_py seq_ref_msa) Map.empty 0)"

text \<open>
  What the mapping is compared with: the columns of the gapped sequence that hold
  a character other than the gap, in ascending order, and the gapped sequence with
  its gaps removed.
\<close>

definition nongap_columns :: "string \<Rightarrow> nat list" where
  "nongap_columns msa = filter (\<lambda>idx. msa ! idx \<noteq> CHR ''-'') [0..<length msa]"

definition degap :: "string \<Rightarrow> string" where
  "degap msa = filter (\<lambda>ch. ch \<noteq> CHR ''-'') msa"

text \<open>The enumerated characters that are not gaps, in the order the loop meets them.\<close>

definition gap_free :: "(nat \<times> char) list \<Rightarrow> (nat \<times> char) list" where
  "gap_free ps = filter (\<lambda>p. snd p \<noteq> CHR ''-'') ps"

section \<open>The annotated dataset\<close>

text \<open>
  A cell of a numpy array of floats that the module compares with others and may
  overwrite with \<^verbatim>\<open>float('inf')\<close>: a real number or positive infinity, ordered
  with infinity on top. (Negative infinity and NaN are not modelled.)
\<close>

datatype score = Fin real | PInf

instantiation score :: linorder
begin

definition less_eq_score :: "score \<Rightarrow> score \<Rightarrow> bool" where
  "less_eq_score a b =
     (case b of PInf \<Rightarrow> True | Fin y \<Rightarrow> (case a of PInf \<Rightarrow> False | Fin x \<Rightarrow> x \<le> y))"

definition less_score :: "score \<Rightarrow> score \<Rightarrow> bool" where
  "less_score a b = (a \<le> b \<and> \<not> b \<le> (a :: score))"

instance
  by standard (auto simp: less_eq_score_def less_score_def split: score.splits)

end

text \<open>
  A dense two-dimensional numpy array in row-major order: its shape and its buffer.
  The cell of row \<open>r\<close> and column \<open>c\<close> is the element \<open>r * ncols + c\<close> of the buffer.
\<close>

record ndarray =
  nrows :: nat
  ncols :: nat
  cells :: "score list"


text \<open>
  The dataset, with the annotations the module reads. A scipy sparse matrix is the
  list of its rows. \<open>distances\<close> is the neighbor-distance matrix that
  \<^verbatim>\<open>scanpy.pp.neighbors\<close> leaves in the dataset; the module reads it only through
  the call \<^verbatim>\<open>get_neighs(adata, 'distances')\<close>.
  \<^verbatim>\<open>adata.uns\<close> holds values of three kinds, one map for each kind: the sparse graphs, the dense score arrays and the vocabularies (a dictionary
  from category index to symbol, as the list of its items). \<^verbatim>\<open>adata.obsm\<close> maps the
  name of an embedding to its rows, of which only the columns 0 and 1 are read.
  \<^verbatim>\<open>adata.obs\<close> maps a column name to the column, one string for each observation.
\<close>

record adata =
  distances :: "real list list"
  uns_graph :: "string \<rightharpoonup> real list list"
  uns_scores :: "string \<rightharpoonup> ndarray"
  uns_vocabulary :: "string \<rightharpoonup> (nat \<times> string) list"
  obsm :: "string \<rightharpoonup> (real \<times> real) list"
  obs :: "string \<rightharpoonup> string list"

section \<open>Global names\<close>

text \<open>
  The module binds, at its top level, the names of its imports (\<^verbatim>\<open>logg\<close>,
  \<^verbatim>\<open>quiver_autoscale\<close>, \<^verbatim>\<open>velocity_embedding\<close>, \<^verbatim>\<open>AnnData\<close>, \<^verbatim>\<open>plt\<close>,
  \<^verbatim>\<open>np\<close>, \<^verbatim>\<open>sc\<close>, \<^verbatim>\<open>ss\<close>, \<^verbatim>\<open>sns\<close>) and of its four functions.
  \<^verbatim>\<open>shortest_path\<close> calls \<^verbatim>\<open>get_neighs\<close>, which is none of them and no builtin.
  Python looks a global name up when the expression is evaluated and raises
  \<^verbatim>\<open>NameError\<close> when nothing binds it. So the namespace in which the functions
  run is an argument of the model: it gives, for a name, the function from a dataset
  and a key to a sparse matrix that the name is bound to, if there is one.
  \<open>module_globals\<close> is the namespace of the module as it is written, which binds
  no name to such a function.
\<close>

type_synonym accessor = "adata \<Rightarrow> string \<Rightarrow> real list list"

type_synonym namespace = "string \<rightharpoonup> accessor"

definition module_globals :: namespace where
  "module_globals = Map.empty"

definition load_global :: "namespace \<Rightarrow> string \<Rightarrow> error + accessor" where
  "load_global globals name =
     (case globals name of None \<Rightarrow> Inl (NameError name) | Some f \<Rightarrow> Inr f)"

section \<open>The Path Resolver: \<^verbatim>\<open>shortest_path\<close>\<close>

subsection \<open>numpy and scipy\<close>

text \<open>\<^verbatim>\<open>np.min\<close> raises \<^verbatim>\<open>ValueError\<close> on an array without elements.\<close>

definition np_min :: "'a::linorder list \<Rightarrow> error + 'a" where
  "np_min xs = (case xs of [] \<Rightarrow> Inl EmptyReduction | x # rest \<Rightarrow> Inr (fold min rest x))"

text \<open>
  \<^verbatim>\<open>(M > 0).sum(1).A1\<close>: for every row of the sparse matrix, the number of its
  entries that are positive.
\<close>

definition positive_counts :: "real list list \<Rightarrow> nat list" where
  "positive_counts M = map (\<lambda>row. length (filter (\<lambda>x. 0 < x) row)) M"

text \<open>
  The difference of two sparse matrices: scipy raises \<^verbatim>\<open>ValueError\<close> when the
  shapes differ.
\<close>

definition sparse_sub :: "real list list \<Rightarrow> real list list \<Rightarrow> error + real list list" where
  "sparse_sub A B =
     (if map length A \<noteq> map length B then Inl InconsistentShapes
      else Inr (map2 (map2 (-)) A B))"

subsection \<open>networkx\<close>

text \<open>
  \<^verbatim>\<open>from_scipy_sparse_matrix(T)\<close> is called without \<^verbatim>\<open>create_using\<close>, so it builds
  networkx's default graph, the undirected \<^verbatim>\<open>Graph\<close>: the nodes are
  \<open>0, \<dots>, n - 1\<close> and every nonzero entry \<open>T[u, v]\<close> adds the edge between \<open>u\<close> and
  \<open>v\<close>, which an undirected graph holds for both directions. A matrix that is not
  square is refused.
\<close>

record nx_graph =
  num_nodes :: nat
  edge_list :: "(nat \<times> nat) list"

definition nonzero_entries :: "real list list \<Rightarrow> (nat \<times> nat) list" where
  "nonzero_entries T =
     concat (map (\<lambda>u. map (\<lambda>v. (u, v)) (filter (\<lambda>v. T ! u ! v \<noteq> 0) [0..<length (T ! u)]))
       [0..<length T])"

definition from_scipy_sparse_matrix :: "real list list \<Rightarrow> error + nx_graph" where
  "from_scipy_sparse_matrix T =
     (if \<exists>row \<in> set T. length row \<noteq> length T then Inl NotSquare
      else Inr \<lparr>num_nodes = length T, edge_list = nonzero_entries T\<rparr>)"

definition has_edge :: "nx_graph \<Rightarrow> nat \<Rightarrow> nat \<Rightarrow> bool" where
  "has_edge G u v \<longleftrightarrow> (u, v) \<in> set (edge_list G) \<or> (v, u) \<in> set (edge_list G)"

definition neighbors :: "nx_graph \<Rightarrow> nat \<Rightarrow> nat list" where
  "neighbors G u = filter (has_edge G u) [0..<num_nodes G]"

text \<open>
  \<^verbatim>\<open>shortest_path(G, source, target)\<close> with no weight searches breadth first and
  returns a path with the fewest edges; networkx does not say which one when there
  are several. It raises \<^verbatim>\<open>NodeNotFound\<close> when an end point is not a node and
  \<^verbatim>\<open>NetworkXNoPath\<close> when the target cannot be reached. The model keeps, level by
  level, one path to every node first reached at that level.
\<close>

fun keep_new :: "nat list \<Rightarrow> nat list list \<Rightarrow> nat list list" where
  "keep_new seen [] = []"
| "keep_new seen (p # ps) =
     (if last p \<in> set seen then keep_new seen ps else p # keep_new (last p # seen) ps)"

definition extensions :: "nx_graph \<Rightarrow> nat list list \<Rightarrow> nat list list" where
  "extensions G front = concat (map (\<lambda>p. map (\<lambda>v. p @ [v]) (neighbors G (last p))) front)"

lemma keep_new_last: "last ` set (keep_new seen ps) = last ` set ps - set seen"
  by (induction ps arbitrary: seen) auto

lemma keep_new_subset: "set (keep_new seen ps) \<subseteq> set ps"
  by (induction ps arbitrary: seen) auto

lemma extensions_last_lt: "p \<in> set (extensions G front) \<Longrightarrow> last p < num_nodes G"
  by (auto simp: extensions_def neighbors_def)

function bfs :: "nx_graph \<Rightarrow> nat \<Rightarrow> nat list \<Rightarrow> nat list list \<Rightarrow> error + nat list" where
  "bfs G target seen front =
     (case find (\<lambda>p. last p = target) front of
        Some p \<Rightarrow> Inr p
      | None \<Rightarrow>
          (if keep_new seen (extensions G front) = [] then Inl NetworkXNoPath
           else bfs G target
                  (map last (keep_new seen (extensions G front)) @ seen)
                  (keep_new seen (extensions G front))))"
  by pat_completeness auto
termination
proof (relation "measure (\<lambda>(G, target, seen, front). num_nodes G - card (set seen \<inter> {..<num_nodes G}))")
  show "wf (measure (\<lambda>(G, target, seen, front). num_nodes G - card (set seen \<inter> {..<num_nodes G})))"
    by simp
next
  fix G :: nx_graph and target :: nat and seen :: "nat list" and front :: "nat list list"
  let ?new = "keep_new seen (extensions G front)"
  let ?n = "num_nodes G"
  assume "?new \<noteq> []"
  then obtain p where p: "p \<in> set ?new" by (cases ?new) auto
  then have "last p \<in> last ` set ?new" by blast
  then have notin: "last p \<notin> set seen" and "last p \<in> last ` set (extensions G front)"
    unfolding keep_new_last by auto
  then have lt: "last p < ?n" using extensions_last_lt by auto
  have "set seen \<inter> {..<?n} \<subset> set (map last ?new @ seen) \<inter> {..<?n}"
    using p notin lt by auto
  then have "card (set seen \<inter> {..<?n}) < card (set (map last ?new @ seen) \<inter> {..<?n})"
    by (intro psubset_card_mono) auto
  moreover have "card (set (map last ?new @ seen) \<inter> {..<?n}) \<le> ?n"
    using card_mono[of "{..<?n}" "set (map last ?new @ seen) \<inter> {..<?n}"] by simp
  ultimately show "((G, target, map last ?new @ seen, ?new), (G, target, seen, front))
      \<in> measure (\<lambda>(G, target, seen, front). num_nodes G - card (set seen \<inter> {..<num_nodes G}))"
    by simp
qed

declare bfs.simps [simp del]

definition nx_shortest_path :: "nx_graph \<Rightarrow> nat \<Rightarrow> nat \<Rightarrow> error + nat list" where
  "nx_shortest_path G source target =
     (if \<not> source < num_nodes G \<or> \<not> target < num_nodes G then Inl NodeNotFound
      else bfs G target [source] [[source]])"

subsection \<open>The function\<close>

text \<open>
  \<^verbatim>\<open>
  if np.min((get_neighs(adata, 'distances') > 0).sum(1).A1) == 0:
      raise ValueError('Your neighbor graph seems to be corrupted. ...')
  if f'{vkey}_graph' not in adata.uns:
      raise ValueError('Must run velocity_graph() first.')
  T = adata.uns[f'{vkey}_graph'] - adata.uns[f'{vkey}_graph_neg']
  G = nx.convert_matrix.from_scipy_sparse_matrix(T)
  path = nx.algorithms.shortest_paths.generic.shortest_path(
      G, source=source_idx, target=target_idx)
  return path
  \<close>
  The first thing the condition of line 17 evaluates that can fail is the name
  \<^verbatim>\<open>get_neighs\<close>.
\<close>

definition shortest_path :: "namespace \<Rightarrow> adata \<Rightarrow> nat \<Rightarrow> nat \<Rightarrow> string \<Rightarrow> error + nat list" where
  "shortest_path globals adata source_idx target_idx vkey =
     (case load_global globals ''get_neighs'' of
        Inl e \<Rightarrow> Inl e
      | Inr get_neighs \<Rightarrow>
     (case np_min (positive_counts (get_neighs adata ''distances'')) of
        Inl e \<Rightarrow> Inl e
      | Inr least \<Rightarrow>
          if least = 0 then Inl CorruptedNeighborGraph
          else (case uns_graph adata (vkey @ ''_graph'') of
            None \<Rightarrow> Inl MustRunVelocityGraph
          | Some graph \<Rightarrow>
              (case uns_graph adata (vkey @ ''_graph_neg'') of
                None \<Rightarrow> Inl (KeyError (vkey @ ''_graph_neg''))
              | Some graph_neg \<Rightarrow>
                  (case sparse_sub graph graph_neg of
                    Inl e \<Rightarrow> Inl e
                  | Inr T \<Rightarrow>
                      (case from_scipy_sparse_matrix T of
                        Inl e \<Rightarrow> Inl e
                      | Inr G \<Rightarrow> nx_shortest_path G source_idx target_idx))))))"

text \<open>
  What the resolver's result is compared with. A walk is a sequence of nodes every
  consecutive pair of which is joined; \<open>joined_directed\<close> is the directed reading of
  the signed difference matrix, an edge from \<open>u\<close> to \<open>v\<close> for every nonzero \<open>T[u, v]\<close>;
  \<open>joined_undirected\<close> forgets the direction.
\<close>

fun walk :: "(nat \<Rightarrow> nat \<Rightarrow> bool) \<Rightarrow> nat list \<Rightarrow> bool" where
  "walk E [] = False"
| "walk E [v] = True"
| "walk E (u # v # rest) = (E u v \<and> walk E (v # rest))"

definition path_between :: "(nat \<Rightarrow> nat \<Rightarrow> bool) \<Rightarrow> nat \<Rightarrow> nat \<Rightarrow> nat \<Rightarrow> nat list \<Rightarrow> bool" where
  "path_between E n s t p \<longleftrightarrow> walk E p \<and> hd p = s \<and> last p = t \<and> list_all (\<lambda>v. v < n) p"

definition signed_difference :: "real list list \<Rightarrow> real list list \<Rightarrow> real list list" where
  "signed_difference A B = map2 (map2 (-)) A B"

definition joined_directed :: "real list list \<Rightarrow> nat \<Rightarrow> nat \<Rightarrow> bool" where
  "joined_directed T u v \<longleftrightarrow> u < length T \<and> v < length (T ! u) \<and> T ! u ! v \<noteq> 0"

definition joined_undirected :: "real list list \<Rightarrow> nat \<Rightarrow> nat \<Rightarrow> bool" where
  "joined_undirected T u v \<longleftrightarrow> joined_directed T u v \<or> joined_directed T v u"

definition neighbors_ok :: "real list list \<Rightarrow> bool" where
  "neighbors_ok D \<longleftrightarrow> D \<noteq> [] \<and> list_all (\<lambda>row. list_ex (\<lambda>x. 0 < x) row) D"

definition square :: "nat \<Rightarrow> real list list \<Rightarrow> bool" where
  "square n A \<longleftrightarrow> length A = n \<and> list_all (\<lambda>row. length row = n) A"

text \<open>
  The nodes that a walk of exactly \<open>j\<close> edges from \<open>s\<close> ends in, for the proof that the
  search is breadth first.
\<close>

fun reach :: "nx_graph \<Rightarrow> nat \<Rightarrow> nat \<Rightarrow> nat \<Rightarrow> bool" where
  "reach G s 0 v = (v = s)"
| "reach G s (Suc j) v = (\<exists>u. reach G s j u \<and> v \<in> set (neighbors G u))"

declare reach.simps(2) [simp del]

definition adjacent :: "nx_graph \<Rightarrow> nat \<Rightarrow> nat \<Rightarrow> bool" where
  "adjacent G u v \<longleftrightarrow> v \<in> set (neighbors G u)"

definition level_inv :: "nx_graph \<Rightarrow> nat \<Rightarrow> nat \<Rightarrow> nat \<Rightarrow> nat list \<Rightarrow> nat list list \<Rightarrow> bool" where
  "level_inv G s t k seen front \<longleftrightarrow>
     (\<forall>p \<in> set front. walk (adjacent G) p \<and> hd p = s \<and> length p = Suc k \<and>
        list_all (\<lambda>v. v < num_nodes G) p) \<and>
     last ` set front = {v. reach G s k v \<and> (\<forall>j<k. \<not> reach G s j v)} \<and>
     set seen = {v. \<exists>j\<le>k. reach G s j v} \<and>
     (\<forall>j<k. \<not> reach G s j t)"

text \<open>
  The two readings of a corrupted neighbor graph: some row of the distance matrix
  has no positive entry, or every row holds zeros only.
\<close>

definition some_row_without_positive :: "real list list \<Rightarrow> bool" where
  "some_row_without_positive D \<longleftrightarrow> list_ex (\<lambda>row. \<not> list_ex (\<lambda>x. 0 < x) row) D"

definition every_row_zero :: "real list list \<Rightarrow> bool" where
  "every_row_zero D \<longleftrightarrow> list_all (list_all (\<lambda>x. x = 0)) D"

text \<open>Small datasets: a neighbor-distance matrix and the two graphs of the key \<open>velocity\<close>.\<close>

definition dataset :: "real list list \<Rightarrow> (string \<times> real list list) list \<Rightarrow> adata" where
  "dataset D graphs = \<lparr>distances = D, uns_graph = map_of graphs, uns_scores = Map.empty,
     uns_vocabulary = Map.empty, obsm = Map.empty, obs = Map.empty\<rparr>"

definition ex_chain :: adata where
  "ex_chain = dataset [[0, 1, 0], [1, 0, 1], [0, 1, 0]]
     [(''velocity_graph'', [[0, 3, 0], [0, 0, 2], [0, 0, 0]]),
      (''velocity_graph_neg'', [[0, 1, 0], [0, 0, 0], [0, 0, 0]])]"

definition ex_back :: adata where
  "ex_back = dataset [[0, 1], [1, 0]]
     [(''velocity_graph'', [[0, 0], [1, 0]]), (''velocity_graph_neg'', [[0, 0], [0, 0]])]"

definition ex_apart :: adata where
  "ex_apart = dataset [[0, 1], [1, 0]]
     [(''velocity_graph'', [[0, 2], [0, 0]]), (''velocity_graph_neg'', [[0, 2], [0, 0]])]"

definition ex_corrupted :: adata where
  "ex_corrupted = dataset [[0, 1], [0, 0]] [(''velocity_graph'', [[0, 1], [0, 0]])]"

definition ex_no_graph :: adata where
  "ex_no_graph = dataset [[0, 1], [1, 0]] [(''velocity_graph_neg'', [[0, 0], [0, 0]])]"

definition ex_all_zero :: adata where
  "ex_all_zero = dataset [[0, 0], [0, 0]]
     [(''velocity_graph'', [[0, 1], [0, 0]]), (''velocity_graph_neg'', [[0, 0], [0, 0]])]"

definition ex_no_graph_neg :: adata where
  "ex_no_graph_neg = dataset [[0, 1], [1, 0]] [(''velocity_graph'', [[0, 1], [0, 0]])]"

text \<open>
  A namespace that binds the name: the module's, with \<^verbatim>\<open>get_neighs\<close> bound to a
  function that returns the neighbor-distance matrix of the dataset. The lemmas on
  the lines after the call hold for every namespace that binds the name; this one
  evaluates them.
\<close>

definition bound_globals :: namespace where
  "bound_globals = module_globals(''get_neighs'' \<mapsto> (\<lambda>adata key. distances adata))"

section \<open>The Path Renderer: \<^verbatim>\<open>draw_path\<close>\<close>

subsection \<open>The plotting state\<close>

text \<open>
  What the module does to the world outside the dataset: the drawing surfaces
  (matplotlib axes) with the artists drawn on each, in the order of the calls; the
  files written; the lines logged. A surface is named by its index in the store.
  An arrow carries the arguments of \<^verbatim>\<open>ax.arrow\<close>, a scatter layer those of
  \<^verbatim>\<open>ax.scatter\<close>, an embedding plot those of \<^verbatim>\<open>sc.pl.umap\<close>.
\<close>

datatype artist =
    Arrow (arrow_x: real) (arrow_y: real) (arrow_dx: real) (arrow_dy: real)
      (arrow_width: real) (arrow_head_width: real) (arrow_includes_head: bool)
      (arrow_color: string) (arrow_zorder: int)
  | Scatter (scatter_x: "real list") (scatter_y: "real list") (scatter_s: real)
      (scatter_c: string) (scatter_cmap: "string option") (scatter_edgecolors: string)
      (scatter_linewidths: real) (scatter_zorder: int)
  | UmapPlot (umap_color: string) (umap_save: string) (umap_edges: bool)

record world =
  axes_store :: "artist list list"
  saved :: "string list"
  logged :: "string list"

text \<open>\<^verbatim>\<open>plt.figure(); ax = plt.gca()\<close>: a new, empty surface.\<close>

definition plt_figure :: "world \<Rightarrow> world \<times> nat" where
  "plt_figure w = (w\<lparr>axes_store := axes_store w @ [[]]\<rparr>, length (axes_store w))"

definition add_artists :: "world \<Rightarrow> nat \<Rightarrow> artist list \<Rightarrow> world" where
  "add_artists w a arts = w\<lparr>axes_store := (axes_store w)[a := axes_store w ! a @ arts]\<rparr>"

subsection \<open>The function\<close>

text \<open>The keyword arguments of \<^verbatim>\<open>draw_path\<close> that style the drawing, and their defaults.\<close>

record path_style =
  color :: string
  cmap :: "string option"
  size_arg :: real
  edgecolor :: string
  linecolor :: string
  linewidth :: real

definition default_style :: path_style where
  "default_style = \<lparr>color = ''white'', cmap = None, size_arg = 15, edgecolor = ''black'',
     linecolor = ''#888888'', linewidth = 1 / 1000\<rparr>"

text \<open>
  \<^verbatim>\<open>adata.obsm[f'X_{basis}'][path, 0]\<close>: the rows of the embedding that the path
  names. An index is an integer; a negative one counts from the end, and one outside
  \<open>[-n, n)\<close> raises \<open>IndexError\<close>.
\<close>

definition take_rows :: "'a list \<Rightarrow> int list \<Rightarrow> error + 'a list" where
  "take_rows X path =
     (if \<forall>i \<in> set path. - int (length X) \<le> i \<and> i < int (length X)
      then Inr (map (\<lambda>i. X ! nat (if i < 0 then i + int (length X) else i)) path)
      else Inl IndexError)"

text \<open>
  \<^verbatim>\<open>
  for idx, (x, y) in enumerate(zip(basis_x, basis_y)):
      if idx < len(basis_x) - 1:
          dx, dy = basis_x[idx + 1] - x, basis_y[idx + 1] - y
          ax.arrow(x, y, dx, dy, width=linewidth, head_width=0,
                   length_includes_head=True, color=linecolor, zorder=5)
  \<close>
  Every turn of the loop draws one arrow or none.
\<close>

definition path_arrows :: "real list \<Rightarrow> real list \<Rightarrow> path_style \<Rightarrow> artist list" where
  "path_arrows basis_x basis_y st =
     concat (map (\<lambda>(idx, (x, y)).
         if int idx < int (length basis_x) - 1
         then [Arrow x y (basis_x ! (idx + 1) - x) (basis_y ! (idx + 1) - y)
                 (linewidth st) 0 True (linecolor st) 5]
         else [])
       (zip [0..<length (zip basis_x basis_y)] (zip basis_x basis_y)))"

definition path_scatter :: "real list \<Rightarrow> real list \<Rightarrow> path_style \<Rightarrow> artist" where
  "path_scatter basis_x basis_y st =
     Scatter basis_x basis_y (size_arg st) (color st) (cmap st) (edgecolor st) (1 / 2) 10"

text \<open>
  \<^verbatim>\<open>
  if path is None and (source_idx is None or target_idx is None):
      raise ValueError('Must provide path indices or source and target indices.')
  if path is None:
      path = shortest_path(adata, source_idx, target_idx, vkey=vkey)
  if ax is None:
      plt.figure()
      ax = plt.gca()
  if f'X_{basis}' not in adata.obsm:
      raise ValueError(f'Basis {basis} not found in AnnData.')
  basis_x = np.array(adata.obsm[f'X_{basis}'][path, 0]).ravel()
  basis_y = np.array(adata.obsm[f'X_{basis}'][path, 1]).ravel()
  ... the loop of arrows ...
  ax.scatter(basis_x, basis_y, s=size, c=color, cmap=cmap,
             edgecolors=edgecolor, linewidths=0.5, zorder=10)
  return ax
  \<close>
  The result is the state of the world after the call together with the surface
  returned or the error raised. The namespace is the one \<^verbatim>\<open>shortest_path\<close> runs in.
\<close>

definition draw_path ::
  "namespace \<Rightarrow> adata \<Rightarrow> int list option \<Rightarrow> nat option \<Rightarrow> nat option \<Rightarrow> string \<Rightarrow> string \<Rightarrow>
   nat option \<Rightarrow> path_style \<Rightarrow> world \<Rightarrow> world \<times> (error + nat)"
where
  "draw_path globals adata path source_idx target_idx basis vkey ax st w =
     (if path = None \<and> (source_idx = None \<or> target_idx = None) then (w, Inl MustProvidePath)
      else
        (case (case path of
                 Some p \<Rightarrow> Inr p
               | None \<Rightarrow> map_sum id (map int)
                   (shortest_path globals adata (the source_idx) (the target_idx) vkey)) of
           Inl e \<Rightarrow> (w, Inl e)
         | Inr p \<Rightarrow>
             (case (case ax of None \<Rightarrow> plt_figure w | Some a \<Rightarrow> (w, a)) of
                (w1, a) \<Rightarrow>
                  (case obsm adata (''X_'' @ basis) of
                     None \<Rightarrow> (w1, Inl (BasisNotFound basis))
                   | Some X \<Rightarrow>
                       (case take_rows X p of
                          Inl e \<Rightarrow> (w1, Inl e)
                        | Inr pts \<Rightarrow>
                            (add_artists w1 a
                               (path_arrows (map fst pts) (map snd pts) st @
                                [path_scatter (map fst pts) (map snd pts) st]),
                             Inr a))))))"

text \<open>
  The arrow from the point \<open>i\<close> of a list of points to the point \<open>i + 1\<close>, as the
  renderer draws it: it starts at the point and spans the difference to the next.
\<close>

definition arrow_between :: "(real \<times> real) list \<Rightarrow> path_style \<Rightarrow> nat \<Rightarrow> artist" where
  "arrow_between pts st i =
     Arrow (fst (pts ! i)) (snd (pts ! i))
       (fst (pts ! (i + 1)) - fst (pts ! i)) (snd (pts ! (i + 1)) - snd (pts ! i))
       (linewidth st) 0 True (linecolor st) 5"

section \<open>The Residue Score Heatmap: filtering and scaling in \<^verbatim>\<open>residue_scores\<close>\<close>












section \<open>The Residue Category Overlay: \<^verbatim>\<open>residue_categories\<close>\<close>

subsection \<open>numpy on the score array\<close>

text \<open>
  \<^verbatim>\<open>np.argmin\<close> returns the first index, in row-major order, of a least element, and
  raises \<^verbatim>\<open>ValueError\<close> on an array without elements. \<^verbatim>\<open>np.unravel_index\<close> turns
  the flat index into the row and the column.
\<close>

fun argmin_list :: "'a::linorder list \<Rightarrow> nat" where
  "argmin_list [] = 0"
| "argmin_list [x] = 0"
| "argmin_list (x # y # ys) =
     (if x \<le> (y # ys) ! argmin_list (y # ys) then 0 else Suc (argmin_list (y # ys)))"

definition np_argmin :: "'a::linorder list \<Rightarrow> error + nat" where
  "np_argmin xs = (if xs = [] then Inl EmptyReduction else Inr (argmin_list xs))"

definition unravel_index :: "nat \<Rightarrow> ndarray \<Rightarrow> nat \<times> nat" where
  "unravel_index k a = (k div ncols a, k mod ncols a)"

definition setitem :: "ndarray \<Rightarrow> nat \<times> nat \<Rightarrow> score \<Rightarrow> ndarray" where
  "setitem a rc v = a\<lparr>cells := (cells a)[fst rc * ncols a + snd rc := v]\<rparr>"

subsection \<open>Decimal numerals\<close>

function str_nat :: "nat \<Rightarrow> string" where
  "str_nat n = (if n < 10 then [''0123456789'' ! n] else str_nat (n div 10) @ [''0123456789'' ! (n mod 10)])"
  by pat_completeness auto
termination
  by (relation "measure id") auto

declare str_nat.simps [simp del]

subsection \<open>The automatic selection of positions\<close>

text \<open>
  \<^verbatim>\<open>
  pos_seen = set()
  while len(pos_seen) < n_plot:
      min_idx = np.unravel_index(np.argmin(scores), scores.shape)
      scores[min_idx] = float('inf')
      aa = adata.uns['onehot_vocabulary'][min_idx[1]]
      pos = min_idx[0]
      if pos in pos_seen:
          continue
      pos_seen.add(pos)
      if verbose:
          logg.info('Lowest score {}: {}{}'.format(len(pos_seen), aa, pos + 1))
  positions = sorted(pos_seen)
  \<close>
  The state of the loop is the array, the set of rows seen (a list without
  repetitions, the latest first) and the lines logged. The loop need not end, so its
  result is an option: \<open>None\<close> when it runs forever. When it ends, the result is the
  final state and the error raised, if any: the array is written before the
  vocabulary is read, so it is changed also when the vocabulary lacks the column.
\<close>

type_synonym select_state = "ndarray \<times> nat list \<times> string list"

partial_function (option) select_loop ::
  "(nat \<times> string) list \<Rightarrow> bool \<Rightarrow> int \<Rightarrow> ndarray \<Rightarrow> nat list \<Rightarrow> string list \<Rightarrow>
   (select_state \<times> error option) option"
where
  "select_loop vocabulary verbose n_plot scores pos_seen msgs =
     (if int (length pos_seen) < n_plot then
        (case np_argmin (cells scores) of
           Inl e \<Rightarrow> Some ((scores, pos_seen, msgs), Some e)
         | Inr k \<Rightarrow>
             (case map_of vocabulary (snd (unravel_index k scores)) of
                None \<Rightarrow>
                  Some ((setitem scores (unravel_index k scores) PInf, pos_seen, msgs),
                        Some (KeyError (str_nat (snd (unravel_index k scores)))))
              | Some aa \<Rightarrow>
                  if fst (unravel_index k scores) \<in> set pos_seen
                  then select_loop vocabulary verbose n_plot
                         (setitem scores (unravel_index k scores) PInf) pos_seen msgs
                  else select_loop vocabulary verbose n_plot
                         (setitem scores (unravel_index k scores) PInf)
                         (fst (unravel_index k scores) # pos_seen)
                         (if verbose
                          then msgs @ [''Lowest score '' @ str_nat (Suc (length pos_seen)) @ '': '' @
                                       aa @ str_nat (fst (unravel_index k scores) + 1)]
                          else msgs)))
      else Some ((scores, pos_seen, msgs), None))"

text \<open>The selection from the empty set, with \<^verbatim>\<open>positions = sorted(pos_seen)\<close> at its end.\<close>

definition select_positions ::
  "(nat \<times> string) list \<Rightarrow> bool \<Rightarrow> int \<Rightarrow> ndarray \<Rightarrow> (select_state \<times> error option) option"
where
  "select_positions vocabulary verbose n_plot scores =
     map_option (\<lambda>((scores', pos_seen, msgs), err). ((scores', sort pos_seen, msgs), err))
       (select_loop vocabulary verbose n_plot scores [] [])"

subsection \<open>The reference mapping and the plots\<close>

text \<open>
  \<^verbatim>\<open>
  if reference is not None:
      seq_ref = adata.obs['seq'][reference]
      seq_ref_msa = adata.obs['seqs_msa'][reference]
      ... the loop of the reference alignment ...
  \<close>
  The reference is the number of an observation.
\<close>

definition obs_item :: "adata \<Rightarrow> string \<Rightarrow> nat \<Rightarrow> error + string" where
  "obs_item adata name i =
     (case obs adata name of
        None \<Rightarrow> Inl (KeyError name)
      | Some column \<Rightarrow> if i < length column then Inr (column ! i) else Inl (KeyError (str_nat i)))"

definition reference_map :: "adata \<Rightarrow> nat option \<Rightarrow> error + (nat \<rightharpoonup> nat) option" where
  "reference_map adata reference =
     (case reference of
        None \<Rightarrow> Inr None
      | Some r \<Rightarrow>
          (case obs_item adata ''seq'' r of
             Inl e \<Rightarrow> Inl e
           | Inr seq_ref \<Rightarrow>
               (case obs_item adata ''seqs_msa'' r of
                  Inl e \<Rightarrow> Inl e
                | Inr seq_ref_msa \<Rightarrow> map_sum id Some (build_pos2msa seq_ref seq_ref_msa))))"

text \<open>
  \<^verbatim>\<open>
  for pos in positions:
      adata.obs[f'pos{pos}'] = [
          seq[pos] if reference is None else seq[pos2msa[pos]]
          for seq in adata.obs['seqs_msa']
      ]
      sc.pl.umap(adata, color=f'pos{pos}', save=f'_{namespace}_pos{pos}.png',
                 edges=True,)
  \<close>
  scanpy draws the embedding \<^verbatim>\<open>X_umap\<close> on a new figure and writes it to the file
  \<^verbatim>\<open>figures/umap\<close> followed by the \<^verbatim>\<open>save\<close> argument.
\<close>

definition symbol_at :: "(nat \<rightharpoonup> nat) option \<Rightarrow> nat \<Rightarrow> string \<Rightarrow> error + string" where
  "symbol_at pos2msa pos seq =
     (case pos2msa of
        None \<Rightarrow> if pos < length seq then Inr [seq ! pos] else Inl IndexError
      | Some m \<Rightarrow>
          (case m pos of
             None \<Rightarrow> Inl (KeyError (str_nat pos))
           | Some col \<Rightarrow> if col < length seq then Inr [seq ! col] else Inl IndexError))"

fun collect :: "('a \<Rightarrow> error + 'b) \<Rightarrow> 'a list \<Rightarrow> error + 'b list" where
  "collect f [] = Inr []"
| "collect f (x # xs) =
     (case f x of
        Inl e \<Rightarrow> Inl e
      | Inr y \<Rightarrow> (case collect f xs of Inl e \<Rightarrow> Inl e | Inr ys \<Rightarrow> Inr (y # ys)))"

definition sc_pl_umap :: "adata \<Rightarrow> string \<Rightarrow> string \<Rightarrow> world \<Rightarrow> error + world" where
  "sc_pl_umap adata color_key save_arg w =
     (case obsm adata ''X_umap'' of
        None \<Rightarrow> Inl (KeyError ''X_umap'')
      | Some X \<Rightarrow>
          Inr (w\<lparr>axes_store := axes_store w @ [[UmapPlot color_key save_arg True]],
                 saved := saved w @ [''figures/umap'' @ save_arg]\<rparr>))"

fun plot_positions ::
  "(nat \<rightharpoonup> nat) option \<Rightarrow> string \<Rightarrow> nat list \<Rightarrow> adata \<Rightarrow> world \<Rightarrow> (adata \<times> world) \<times> error option"
where
  "plot_positions pos2msa namespace [] adata w = ((adata, w), None)"
| "plot_positions pos2msa namespace (pos # rest) adata w =
     (case obs adata ''seqs_msa'' of
        None \<Rightarrow> ((adata, w), Some (KeyError ''seqs_msa''))
      | Some seqs \<Rightarrow>
          (case collect (symbol_at pos2msa pos) seqs of
             Inl e \<Rightarrow> ((adata, w), Some e)
           | Inr column \<Rightarrow>
               (case sc_pl_umap (adata\<lparr>obs := (obs adata)(''pos'' @ str_nat pos \<mapsto> column)\<rparr>)
                       (''pos'' @ str_nat pos)
                       (''_'' @ namespace @ ''_pos'' @ str_nat pos @ ''.png'') w of
                  Inl e \<Rightarrow> ((adata\<lparr>obs := (obs adata)(''pos'' @ str_nat pos \<mapsto> column)\<rparr>, w), Some e)
                | Inr w' \<Rightarrow>
                    plot_positions pos2msa namespace rest
                      (adata\<lparr>obs := (obs adata)(''pos'' @ str_nat pos \<mapsto> column)\<rparr>) w')))"

subsection \<open>The function\<close>

text \<open>
  The result is \<open>None\<close> when the automatic selection runs forever, and otherwise the
  dataset and the world after the call, with the error raised, if any.
\<close>

definition residue_categories ::
  "adata \<Rightarrow> nat list option \<Rightarrow> int \<Rightarrow> string \<Rightarrow> nat option \<Rightarrow> bool \<Rightarrow> world \<Rightarrow>
   ((adata \<times> world) \<times> error option) option"
where
  "residue_categories adata positions n_plot namespace reference verbose w =
     (case reference_map adata reference of
        Inl e \<Rightarrow> Some ((adata, w), Some e)
      | Inr pos2msa \<Rightarrow>
          (case positions of
             Some ps \<Rightarrow> Some (plot_positions pos2msa namespace ps adata w)
           | None \<Rightarrow>
               (case uns_scores adata ''residue_scores'' of
                  None \<Rightarrow> Some ((adata, w), Some (KeyError ''residue_scores''))
                | Some scores \<Rightarrow>
                    (case uns_vocabulary adata ''onehot_vocabulary'' of
                       None \<Rightarrow>
                         (if 0 < n_plot then
                            (case np_argmin (cells scores) of
                               Inl e \<Rightarrow> Some ((adata, w), Some e)
                             | Inr k \<Rightarrow>
                                 Some ((adata\<lparr>uns_scores := (uns_scores adata)(''residue_scores'' \<mapsto>
                                          setitem scores (unravel_index k scores) PInf)\<rparr>, w),
                                       Some (KeyError ''onehot_vocabulary'')))
                          else Some (plot_positions pos2msa namespace [] adata w))
                     | Some vocabulary \<Rightarrow>
                         (case select_positions vocabulary verbose n_plot scores of
                            None \<Rightarrow> None
                          | Some ((scores', positions', msgs), err) \<Rightarrow>
                              (case err of
                                 Some e \<Rightarrow>
                                   Some ((adata\<lparr>uns_scores := (uns_scores adata)(''residue_scores'' \<mapsto> scores')\<rparr>,
                                          w\<lparr>logged := logged w @ msgs\<rparr>), Some e)
                               | None \<Rightarrow>
                                   Some (plot_positions pos2msa namespace positions'
                                     (adata\<lparr>uns_scores := (uns_scores adata)(''residue_scores'' \<mapsto> scores')\<rparr>)
                                     (w\<lparr>logged := logged w @ msgs\<rparr>))))))))"

text \<open>What the selection is compared with.\<close>

definition well_shaped :: "ndarray \<Rightarrow> bool" where
  "well_shaped a \<longleftrightarrow> length (cells a) = nrows a * ncols a"

definition in_array :: "ndarray \<Rightarrow> nat \<times> nat \<Rightarrow> bool" where
  "in_array a rc \<longleftrightarrow> fst rc < nrows a \<and> snd rc < ncols a"


definition covers_columns :: "(nat \<times> string) list \<Rightarrow> ndarray \<Rightarrow> bool" where
  "covers_columns vocabulary a \<longleftrightarrow> (\<forall>c < ncols a. map_of vocabulary c \<noteq> None)"

definition all_finite :: "ndarray \<Rightarrow> bool" where
  "all_finite a \<longleftrightarrow> (\<forall>x \<in> set (cells a). x < PInf)"

section \<open>What the renderer is compared with\<close>

text \<open>
  The surface a call of \<^verbatim>\<open>draw_path\<close> draws on, the one given or the new one, and
  what that surface held before the call.
\<close>

definition surface_of :: "nat option \<Rightarrow> world \<Rightarrow> nat" where
  "surface_of ax w = (case ax of Some a \<Rightarrow> a | None \<Rightarrow> length (axes_store w))"

definition drawn_before :: "nat option \<Rightarrow> world \<Rightarrow> artist list" where
  "drawn_before ax w = (case ax of Some a \<Rightarrow> axes_store w ! a | None \<Rightarrow> [])"

text \<open>
  The point of an embedding that an index of a path names: the row of that index,
  or, for a negative index, the row that far from the end. An index names a point
  when it lies in \<open>[-n, n)\<close>, \<open>n\<close> the number of rows.
\<close>

definition in_embedding :: "(real \<times> real) list \<Rightarrow> int \<Rightarrow> bool" where
  "in_embedding X i \<longleftrightarrow> - int (length X) \<le> i \<and> i < int (length X)"

definition embedding_point :: "(real \<times> real) list \<Rightarrow> int \<Rightarrow> real \<times> real" where
  "embedding_point X i = (if 0 \<le> i then X ! nat i else X ! (length X - nat (- i)))"

text \<open>An empty world, a dataset with an embedding of four points, and one without any.\<close>

definition empty_world :: world where
  "empty_world = \<lparr>axes_store = [], saved = [], logged = []\<rparr>"

definition ex_embedded :: adata where
  "ex_embedded = (dataset [] [])\<lparr>obsm := [''X_umap'' \<mapsto> [(0, 0), (1, 2), (3, 1), (5, 4)]]\<rparr>"

definition ex_plain :: adata where
  "ex_plain = dataset [] []"

definition ex_mismatch :: adata where
  "ex_mismatch = (dataset [] [])\<lparr>obs := [''seq'' \<mapsto> [''AG''], ''seqs_msa'' \<mapsto> [''A-C'']]\<rparr>"

section \<open>What the selection is compared with: further notions\<close>

text \<open>
  The flat index of a cell, the number of cells of a buffer below infinity (what the
  loop uses up), and the list of all cells of an array.
\<close>

definition flat :: "ndarray \<Rightarrow> nat \<times> nat \<Rightarrow> nat" where
  "flat a rc = fst rc * ncols a + snd rc"

definition finite_count :: "score list \<Rightarrow> nat" where
  "finite_count xs = length (filter (\<lambda>x. x < PInf) xs)"


text \<open>
  Small arrays: one with six rows whose five lowest cells lie in the rows 1, 3, 0, 4
  and 2; one without rows; one with two rows; one that holds infinities only; and
  one whose least remaining cell lies in the row 0, already overwritten once.
\<close>

definition ex_vocabulary :: "(nat \<times> string) list" where
  "ex_vocabulary = [(0, ''A''), (1, ''C'')]"



definition ex_empty :: ndarray where
  "ex_empty = \<lparr>nrows = 0, ncols = 2, cells = []\<rparr>"

definition ex_two_rows :: ndarray where
  "ex_two_rows = \<lparr>nrows = 2, ncols = 1, cells = [Fin 4, Fin (- 1)]\<rparr>"

definition ex_infinite :: ndarray where
  "ex_infinite = \<lparr>nrows = 2, ncols = 1, cells = [PInf, PInf]\<rparr>"


section \<open>The Path Resolver: proofs\<close>

lemma reach_SucI: "reach G s j u \<Longrightarrow> v \<in> set (neighbors G u) \<Longrightarrow> reach G s (Suc j) v"
  by (auto simp: reach.simps(2))

lemma reach_SucD: "reach G s (Suc j) v \<Longrightarrow> \<exists>u. reach G s j u \<and> v \<in> set (neighbors G u)"
  by (simp add: reach.simps(2))

lemma walk_snoc: "walk E (p @ [v]) \<longleftrightarrow> p = [] \<or> (walk E p \<and> E (last p) v)"
  by (induction E p rule: walk.induct) auto

lemma walk_nonempty: "walk E p \<Longrightarrow> p \<noteq> []"
  by (cases p) auto

lemma walk_reach:
  "walk (adjacent G) p \<Longrightarrow> hd p = s \<Longrightarrow> reach G s (length p - 1) (last p)"
proof (induction p rule: rev_induct)
  case Nil
  then show ?case by simp
next
  case (snoc v p)
  show ?case
  proof (cases "p = []")
    case True
    with snoc.prems show ?thesis by simp
  next
    case False
    with snoc.prems have w: "walk (adjacent G) p" and a: "adjacent G (last p) v"
      by (simp_all add: walk_snoc)
    from False snoc.prems have "hd p = s" by simp
    with snoc.IH w have "reach G s (length p - 1) (last p)" by simp
    moreover from False have "length (p @ [v]) - 1 = Suc (length p - 1)" by (cases p) auto
    ultimately show ?thesis using a reach_SucI[of G s "length p - 1" "last p" v]
      by (simp add: adjacent_def)
  qed
qed

lemma reach_beyond:
  assumes empty: "\<And>v. reach G s (Suc k) v \<Longrightarrow> \<exists>j\<le>k. reach G s j v"
  shows "reach G s j v \<Longrightarrow> \<exists>i\<le>k. reach G s i v"
proof (induction j arbitrary: v)
  case 0
  then show ?case by auto
next
  case (Suc j)
  then obtain u where u: "reach G s j u" and v: "v \<in> set (neighbors G u)"
    by (auto dest: reach_SucD)
  from Suc.IH[OF u] obtain i where i: "i \<le> k" "reach G s i u" by auto
  then have r: "reach G s (Suc i) v" using v by (auto intro: reach_SucI)
  show ?case
  proof (cases "Suc i \<le> k")
    case True
    with r show ?thesis by blast
  next
    case False
    with i have "Suc i = Suc k" by simp
    with r empty show ?thesis by metis
  qed
qed

lemma set_extensions:
  "set (extensions G front) = {p @ [v] | p v. p \<in> set front \<and> v \<in> set (neighbors G (last p))}"
  by (auto simp: extensions_def)

lemma level_step:
  assumes inv: "level_inv G s t k seen front"
    and nf: "find (\<lambda>p. last p = t) front = None"
  shows "level_inv G s t (Suc k) (map last (keep_new seen (extensions G front)) @ seen)
           (keep_new seen (extensions G front))"
proof -
  let ?new = "keep_new seen (extensions G front)"
  from inv have I1: "\<And>p. p \<in> set front \<Longrightarrow> walk (adjacent G) p \<and> hd p = s \<and> length p = Suc k \<and>
        list_all (\<lambda>v. v < num_nodes G) p"
    and I2: "last ` set front = {v. reach G s k v \<and> (\<forall>j<k. \<not> reach G s j v)}"
    and I3: "set seen = {v. \<exists>j\<le>k. reach G s j v}"
    and I4: "\<And>j. j < k \<Longrightarrow> \<not> reach G s j t"
    by (auto simp: level_inv_def)
  have J1: "walk (adjacent G) q \<and> hd q = s \<and> length q = Suc (Suc k) \<and>
        list_all (\<lambda>v. v < num_nodes G) q" if "q \<in> set ?new" for q
  proof -
    from that keep_new_subset have "q \<in> set (extensions G front)" by blast
    then obtain p v where q: "q = p @ [v]" and p: "p \<in> set front" and v: "v \<in> set (neighbors G (last p))"
      by (auto simp: set_extensions)
    from I1[OF p] have ne: "p \<noteq> []" by (auto dest: walk_nonempty)
    from v have "v < num_nodes G" by (simp add: neighbors_def)
    with I1[OF p] ne v q show ?thesis by (simp add: walk_snoc adjacent_def)
  qed
  have ext: "last ` set (extensions G front) = {v. \<exists>u \<in> last ` set front. v \<in> set (neighbors G u)}"
    by (auto simp: set_extensions image_iff) (metis last_snoc)+
  have J2: "last ` set ?new = {v. reach G s (Suc k) v \<and> (\<forall>j<Suc k. \<not> reach G s j v)}"
  proof (rule set_eqI, rule iffI)
    fix v assume "v \<in> last ` set ?new"
    then have "v \<in> last ` set (extensions G front)" and ns: "v \<notin> set seen"
      by (auto simp: keep_new_last)
    then obtain u where "u \<in> last ` set front" "v \<in> set (neighbors G u)" unfolding ext by auto
    then have "reach G s (Suc k) v" unfolding I2 by (auto intro: reach_SucI)
    moreover from ns have "\<forall>j<Suc k. \<not> reach G s j v" unfolding I3 by (auto simp: less_Suc_eq_le)
    ultimately show "v \<in> {v. reach G s (Suc k) v \<and> (\<forall>j<Suc k. \<not> reach G s j v)}" by simp
  next
    fix v assume "v \<in> {v. reach G s (Suc k) v \<and> (\<forall>j<Suc k. \<not> reach G s j v)}"
    then have r: "reach G s (Suc k) v" and n: "\<And>j. j < Suc k \<Longrightarrow> \<not> reach G s j v" by auto
    from r obtain u where u: "reach G s k u" and v: "v \<in> set (neighbors G u)"
      by (auto dest: reach_SucD)
    have "\<not> reach G s j u" if "j < k" for j
    proof
      assume "reach G s j u"
      with v have "reach G s (Suc j) v" by (auto intro: reach_SucI)
      with n[of "Suc j"] that show False by simp
    qed
    with u have "u \<in> last ` set front" unfolding I2 by simp
    with v have "v \<in> last ` set (extensions G front)" unfolding ext by auto
    moreover from n have "v \<notin> set seen" unfolding I3 by (auto simp: less_Suc_eq_le)
    ultimately show "v \<in> last ` set ?new" by (simp add: keep_new_last)
  qed
  have J3: "set (map last ?new @ seen) = {v. \<exists>j\<le>Suc k. reach G s j v}"
  proof -
    have "set (map last ?new @ seen) = last ` set ?new \<union> set seen" by auto
    also have "\<dots> = {v. \<exists>j\<le>Suc k. reach G s j v}"
      unfolding J2 I3 by (auto simp: le_Suc_eq less_Suc_eq_le)
    finally show ?thesis .
  qed
  have J4: "\<not> reach G s j t" if "j < Suc k" for j
  proof (cases "j < k")
    case True
    then show ?thesis by (rule I4)
  next
    case False
    with that have jk: "j = k" by simp
    from nf have "t \<notin> last ` set front" by (auto simp: find_None_iff)
    then show ?thesis unfolding I2 jk using I4 by auto
  qed
  from J1 J2 J3 J4 show ?thesis unfolding level_inv_def by blast
qed

lemma bfs_correct:
  "level_inv G s t k seen front \<Longrightarrow>
   (case bfs G t seen front of
      Inr p \<Rightarrow> walk (adjacent G) p \<and> hd p = s \<and> last p = t \<and> list_all (\<lambda>v. v < num_nodes G) p \<and>
               (\<forall>j. reach G s j t \<longrightarrow> length p \<le> Suc j)
    | Inl e \<Rightarrow> e = NetworkXNoPath \<and> (\<forall>j. \<not> reach G s j t))"
proof (induction G t seen front arbitrary: k rule: bfs.induct)
  case (1 G t seen front)
  let ?new = "keep_new seen (extensions G front)"
  from "1.prems" have I1: "\<And>p. p \<in> set front \<Longrightarrow> walk (adjacent G) p \<and> hd p = s \<and> length p = Suc k \<and>
        list_all (\<lambda>v. v < num_nodes G) p"
    and I2: "last ` set front = {v. reach G s k v \<and> (\<forall>j<k. \<not> reach G s j v)}"
    and I3: "set seen = {v. \<exists>j\<le>k. reach G s j v}"
    and I4: "\<And>j. j < k \<Longrightarrow> \<not> reach G s j t"
    by (auto simp: level_inv_def)
  show ?case
  proof (cases "find (\<lambda>p. last p = t) front")
    case (Some p)
    then have p: "p \<in> set front" "last p = t"
      by (auto simp: find_Some_iff)
    have "length p \<le> Suc j" if "reach G s j t" for j
    proof -
      from that I4 have "\<not> j < k" by blast
      with I1[OF p(1)] show ?thesis by simp
    qed
    with I1[OF p(1)] p(2) Some show ?thesis by (subst bfs.simps) simp
  next
    case None
    note step = level_step[OF "1.prems" None]
    show ?thesis
    proof (cases "?new = []")
      case True
      from step have J2: "last ` set ?new = {v. reach G s (Suc k) v \<and> (\<forall>j<Suc k. \<not> reach G s j v)}"
        and J4: "\<And>j. j < Suc k \<Longrightarrow> \<not> reach G s j t"
        by (auto simp: level_inv_def)
      have e: "\<exists>j\<le>k. reach G s j v" if "reach G s (Suc k) v" for v
      proof (rule ccontr)
        assume "\<not> (\<exists>j\<le>k. reach G s j v)"
        with that have "v \<in> {v. reach G s (Suc k) v \<and> (\<forall>j<Suc k. \<not> reach G s j v)}"
          by (auto simp: less_Suc_eq_le)
        moreover from J2 True have "{v. reach G s (Suc k) v \<and> (\<forall>j<Suc k. \<not> reach G s j v)} = {}"
          by simp
        ultimately show False by blast
      qed
      have "\<not> reach G s j t" for j
      proof
        assume "reach G s j t"
        from reach_beyond[of G s k, OF e this] obtain i where "i \<le> k" "reach G s i t" by auto
        with J4[of i] show False by simp
      qed
      with None True show ?thesis by (subst bfs.simps) simp
    next
      case False
      from "1.IH"[OF None False step] None False show ?thesis
        by (subst bfs.simps) simp
    qed
  qed
qed

lemma np_min_Min: "np_min (x # xs) = Inr (Min (set (x # xs)))"
  unfolding np_min_def Min.set_eq_fold by simp

lemma np_min_zero_iff: "np_min cs = Inr (0::nat) \<longleftrightarrow> cs \<noteq> [] \<and> 0 \<in> set cs"
proof (cases cs)
  case Nil
  then show ?thesis by (simp add: np_min_def)
next
  case (Cons x xs)
  have "Min (set (x # xs)) = 0 \<longleftrightarrow> 0 \<in> set (x # xs)"
    by (metis List.finite_set Min_in Min_le le_zero_eq list.distinct(1) set_empty)
  with Cons show ?thesis by (simp only: np_min_Min) simp
qed

lemma np_min_cases: "np_min cs = (if cs = [] then Inl EmptyReduction else Inr (Min (set cs)))"
  by (cases cs) (simp_all only: np_min_Min, simp_all add: np_min_def)

lemma neighbors_ok_min:
  assumes "neighbors_ok D"
  shows "\<exists>least. np_min (positive_counts D) = Inr least \<and> least \<noteq> 0"
proof -
  from assms have ne: "positive_counts D \<noteq> []" by (simp add: neighbors_ok_def positive_counts_def)
  have "0 \<notin> set (positive_counts D)"
    using assms by (auto simp: neighbors_ok_def positive_counts_def list_all_iff list_ex_iff filter_empty_conv)
  with ne np_min_zero_iff[of "positive_counts D"] show ?thesis
    by (auto simp: np_min_cases)
qed

lemma set_nonzero_entries: "(u, v) \<in> set (nonzero_entries T) \<longleftrightarrow> joined_directed T u v"
  by (auto simp: nonzero_entries_def joined_directed_def)

lemma adjacent_from_matrix:
  assumes "square n T"
  shows "adjacent \<lparr>num_nodes = n, edge_list = nonzero_entries T\<rparr> u v \<longleftrightarrow>
         v < n \<and> joined_undirected T u v"
  by (auto simp: adjacent_def neighbors_def has_edge_def set_nonzero_entries joined_undirected_def)

lemma walk_cong:
  assumes "\<And>u v. v < n \<Longrightarrow> E u v = E' u v"
  shows "list_all (\<lambda>v. v < n) p \<Longrightarrow> walk E p = walk E' p"
proof (induction p)
  case Nil
  show ?case by simp
next
  case (Cons u p)
  then show ?case by (cases p) (auto simp: assms)
qed

lemma square_sub:
  assumes "square n A" "square n B"
  shows "sparse_sub A B = Inr (signed_difference A B)" "square n (signed_difference A B)"
proof -
  from assms have "map length A = replicate n n" "map length B = replicate n n"
    by (auto simp: square_def list_all_iff intro!: replicate_eqI)
  then show "sparse_sub A B = Inr (signed_difference A B)"
    by (simp add: sparse_sub_def signed_difference_def)
  from assms show "square n (signed_difference A B)"
    by (auto simp: square_def signed_difference_def list_all_iff set_zip)
qed

lemma square_graph:
  assumes "square n T"
  shows "from_scipy_sparse_matrix T = Inr \<lparr>num_nodes = n, edge_list = nonzero_entries T\<rparr>"
  using assms by (auto simp: from_scipy_sparse_matrix_def square_def list_all_iff)

lemma level_inv_start: "s < num_nodes G \<Longrightarrow> level_inv G s t 0 [s] [[s]]"
  by (auto simp: level_inv_def)

lemma nx_shortest_path_correct:
  assumes "s < num_nodes G" "t < num_nodes G"
  shows "case nx_shortest_path G s t of
      Inr p \<Rightarrow> path_between (adjacent G) (num_nodes G) s t p \<and>
        (\<forall>q. path_between (adjacent G) (num_nodes G) s t q \<longrightarrow> length p \<le> length q)
    | Inl e \<Rightarrow> e = NetworkXNoPath \<and> (\<forall>q. \<not> path_between (adjacent G) (num_nodes G) s t q)"
proof -
  have r: "reach G s (length q - 1) t \<and> q \<noteq> []"
    if "path_between (adjacent G) (num_nodes G) s t q" for q
    using that walk_reach[of G q s] walk_nonempty[of "adjacent G" q]
    by (auto simp: path_between_def)
  have sp: "nx_shortest_path G s t = bfs G t [s] [[s]]"
    using assms by (simp add: nx_shortest_path_def)
  note c = bfs_correct[OF level_inv_start[OF assms(1)], of t]
  show ?thesis
  proof (cases "bfs G t [s] [[s]]")
    case (Inl e)
    with c have "e = NetworkXNoPath" and n: "\<And>j. \<not> reach G s j t" by auto
    with r Inl show ?thesis unfolding sp by auto
  next
    case (Inr p)
    with c have p: "walk (adjacent G) p" "hd p = s" "last p = t" "list_all (\<lambda>v. v < num_nodes G) p"
      and m: "\<And>j. reach G s j t \<Longrightarrow> length p \<le> Suc j" by auto
    have "length p \<le> length q" if "path_between (adjacent G) (num_nodes G) s t q" for q
    proof -
      from r[OF that] have "reach G s (length q - 1) t" "q \<noteq> []" by auto
      with m[of "length q - 1"] show ?thesis by (cases q) auto
    qed
    with p Inr show ?thesis unfolding sp by (simp add: path_between_def)
  qed
qed

lemma bfs_error: "bfs G t seen front = Inl e \<Longrightarrow> e = NetworkXNoPath"
proof (induction G t seen front rule: bfs.induct)
  case (1 G target seen front)
  show ?case
  proof (cases "find (\<lambda>p. last p = target) front")
    case (Some p)
    with "1.prems" show ?thesis by (subst (asm) bfs.simps) simp
  next
    case None
    show ?thesis
    proof (cases "keep_new seen (extensions G front) = []")
      case True
      with None "1.prems" show ?thesis by (subst (asm) bfs.simps) simp
    next
      case False
      from "1.prems" None False
      have "bfs G target (map last (keep_new seen (extensions G front)) @ seen)
              (keep_new seen (extensions G front)) = Inl e"
        by (subst (asm) bfs.simps) simp
      with "1.IH"[OF None False] show ?thesis .
    qed
  qed
qed


lemma corrupted_iff:
  "np_min (positive_counts D) = Inr 0 \<longleftrightarrow> D \<noteq> [] \<and> some_row_without_positive D"
  unfolding np_min_zero_iff
  by (auto simp: positive_counts_def some_row_without_positive_def list_ex_iff filter_empty_conv
      image_iff)

lemma nx_shortest_path_error:
  "nx_shortest_path G s t = Inl e \<Longrightarrow> e = NodeNotFound \<or> e = NetworkXNoPath"
  by (auto simp: nx_shortest_path_def split: if_splits dest: bfs_error)


subsection \<open>The resolver in the module's namespace\<close>

lemma shortest_path_unbound:
  assumes "globals ''get_neighs'' = None"
  shows "shortest_path globals adata s t vkey = Inl (NameError ''get_neighs'')"
  using assms by (simp add: shortest_path_def load_global_def)

lemma shortest_path_name_error:
  "shortest_path module_globals adata s t vkey = Inl (NameError ''get_neighs'')"
  by (rule shortest_path_unbound) (simp add: module_globals_def)

lemma shortest_path_bound:
  assumes "globals ''get_neighs'' = Some get_neighs"
  shows "shortest_path globals adata s t vkey \<noteq> Inl (NameError name)"
  using assms
  by (auto simp: shortest_path_def load_global_def np_min_def sparse_sub_def
      from_scipy_sparse_matrix_def
      split: option.splits sum.splits if_splits list.splits dest: nx_shortest_path_error)

subsection \<open>The lines after the call, in a namespace that binds the name\<close>

lemma shortest_path_undirected:
  assumes b: "globals ''get_neighs'' = Some get_neighs"
    and ok: "neighbors_ok (get_neighs adata ''distances'')"
    and g: "uns_graph adata (vkey @ ''_graph'') = Some A"
    and gn: "uns_graph adata (vkey @ ''_graph_neg'') = Some B"
    and sq: "square n A" "square n B" and st: "s < n" "t < n"
  shows "case shortest_path globals adata s t vkey of
      Inr p \<Rightarrow> path_between (joined_undirected (signed_difference A B)) n s t p \<and>
        (\<forall>q. path_between (joined_undirected (signed_difference A B)) n s t q \<longrightarrow> length p \<le> length q)
    | Inl e \<Rightarrow> e = NetworkXNoPath \<and>
        (\<forall>q. \<not> path_between (joined_undirected (signed_difference A B)) n s t q)"
proof -
  let ?T = "signed_difference A B"
  let ?G = "\<lparr>num_nodes = n, edge_list = nonzero_entries ?T\<rparr>"
  from neighbors_ok_min[OF ok] obtain least where
    m: "np_min (positive_counts (get_neighs adata ''distances'')) = Inr least" "least \<noteq> 0" by auto
  have sp: "shortest_path globals adata s t vkey = nx_shortest_path ?G s t"
    using b m g gn square_sub[OF sq] square_graph[of n ?T]
    by (simp add: shortest_path_def load_global_def)
  have pb: "path_between (adjacent ?G) n s t q = path_between (joined_undirected ?T) n s t q" for q
  proof -
    have "list_all (\<lambda>v. v < n) q \<Longrightarrow> walk (adjacent ?G) q = walk (joined_undirected ?T) q"
      using walk_cong[of n "adjacent ?G" "joined_undirected ?T" q]
        adjacent_from_matrix[OF square_sub(2)[OF sq]] by blast
    then show ?thesis by (auto simp: path_between_def)
  qed
  from nx_shortest_path_correct[of s ?G t] st show ?thesis
    unfolding sp by (auto simp: pb split: sum.splits)
qed

lemma shortest_path_corrupted_iff:
  assumes b: "globals ''get_neighs'' = Some get_neighs"
  shows "shortest_path globals adata s t vkey = Inl CorruptedNeighborGraph \<longleftrightarrow>
   get_neighs adata ''distances'' \<noteq> [] \<and> some_row_without_positive (get_neighs adata ''distances'')"
proof (cases "np_min (positive_counts (get_neighs adata ''distances''))")
  case (Inl e)
  then have "positive_counts (get_neighs adata ''distances'') = []" "e = EmptyReduction"
    by (auto simp: np_min_def split: list.splits)
  with Inl b show ?thesis by (simp add: shortest_path_def load_global_def positive_counts_def)
next
  case (Inr least)
  show ?thesis
  proof (cases "least = 0")
    case True
    with Inr b corrupted_iff[of "get_neighs adata ''distances''"] show ?thesis
      by (simp add: shortest_path_def load_global_def)
  next
    case False
    with Inr corrupted_iff[of "get_neighs adata ''distances''"]
    have n: "\<not> (get_neighs adata ''distances'' \<noteq> [] \<and>
        some_row_without_positive (get_neighs adata ''distances''))" by simp
    have "shortest_path globals adata s t vkey \<noteq> Inl CorruptedNeighborGraph"
      using Inr False b
      by (auto simp: shortest_path_def load_global_def sparse_sub_def from_scipy_sparse_matrix_def
          split: option.splits sum.splits if_splits dest: nx_shortest_path_error)
    with n show ?thesis by simp
  qed
qed

lemma shortest_path_missing_graph:
  assumes "globals ''get_neighs'' = Some get_neighs"
    and "neighbors_ok (get_neighs adata ''distances'')"
    and "uns_graph adata (vkey @ ''_graph'') = None"
  shows "shortest_path globals adata s t vkey = Inl MustRunVelocityGraph"
  using neighbors_ok_min[OF assms(2)] assms(1,3)
  by (auto simp: shortest_path_def load_global_def)

lemma shortest_path_missing_graph_neg:
  assumes "globals ''get_neighs'' = Some get_neighs"
    and "neighbors_ok (get_neighs adata ''distances'')"
    and "uns_graph adata (vkey @ ''_graph'') = Some graph"
    and "uns_graph adata (vkey @ ''_graph_neg'') = None"
  shows "shortest_path globals adata s t vkey = Inl (KeyError (vkey @ ''_graph_neg''))"
  using neighbors_ok_min[OF assms(2)] assms(1,3,4)
  by (auto simp: shortest_path_def load_global_def)

lemmas resolver_eval = shortest_path_def load_global_def bound_globals_def module_globals_def
  np_min_def positive_counts_def sparse_sub_def
  from_scipy_sparse_matrix_def nonzero_entries_def nx_shortest_path_def extensions_def
  neighbors_def has_edge_def eval_nat_numeral bfs.simps dataset_def

lemma bound_chain: "shortest_path bound_globals ex_chain 0 2 ''velocity'' = Inr [0, 1, 2]"
  by (simp add: ex_chain_def resolver_eval)

lemma bound_back: "shortest_path bound_globals ex_back 0 1 ''velocity'' = Inr [0, 1]"
  by (simp add: ex_back_def resolver_eval)

lemma bound_apart: "shortest_path bound_globals ex_apart 0 1 ''velocity'' = Inl NetworkXNoPath"
  by (simp add: ex_apart_def resolver_eval)

lemma bound_corrupted:
  "shortest_path bound_globals ex_corrupted 0 1 ''velocity'' = Inl CorruptedNeighborGraph"
  by (simp add: ex_corrupted_def resolver_eval)

subsection \<open>The claims on the resolver\<close>

text \<open>
  Claim C1. The claim asks of the resolver a shortest sequence of nodes from the
  source to the target along the edges of the signed difference graph. In the
  dataset \<open>ex_chain\<close>, which holds both graphs of the key \<open>velocity\<close> and whose
  neighbor-distance matrix has a positive entry in every row, \<open>[0, 1, 2]\<close> is such a
  sequence from 0 to 2. The resolver of the module returns no sequence there: the
  call of \<^verbatim>\<open>get_neighs\<close> in its first line raises \<open>NameError\<close>.
\<close>

theorem resolver_raises_name_error:
  "neighbors_ok (distances ex_chain) \<and>
   uns_graph ex_chain ''velocity_graph'' = Some [[0, 3, 0], [0, 0, 2], [0, 0, 0]] \<and>
   uns_graph ex_chain ''velocity_graph_neg'' = Some [[0, 1, 0], [0, 0, 0], [0, 0, 0]] \<and>
   path_between (joined_directed
     (signed_difference [[0, 3, 0], [0, 0, 2], [0, 0, 0]] [[0, 1, 0], [0, 0, 0], [0, 0, 0]])) 3 0 2 [0, 1, 2] \<and>
   shortest_path module_globals ex_chain 0 2 ''velocity'' = Inl (NameError ''get_neighs'')"
proof -
  have "neighbors_ok (distances ex_chain)"
    by (simp add: ex_chain_def dataset_def neighbors_ok_def)
  moreover have "uns_graph ex_chain ''velocity_graph'' = Some [[0, 3, 0], [0, 0, 2], [0, 0, 0]]"
    "uns_graph ex_chain ''velocity_graph_neg'' = Some [[0, 1, 0], [0, 0, 0], [0, 0, 0]]"
    by (simp_all add: ex_chain_def dataset_def)
  moreover have "path_between (joined_directed
     (signed_difference [[0, 3, 0], [0, 0, 2], [0, 0, 0]] [[0, 1, 0], [0, 0, 0], [0, 0, 0]])) 3 0 2 [0, 1, 2]"
    by (simp add: path_between_def joined_directed_def signed_difference_def)
  ultimately show ?thesis using shortest_path_name_error by blast
qed

text \<open>
  Claim C4. The claim asks for the corrupted-neighbor-graph error when the rows of
  the neighbor-distance matrix are zero, and for the error of the missing graph when
  the graph of the key is absent. For the dataset \<open>ex_all_zero\<close>, whose distance
  matrix holds zeros only, and for \<open>ex_no_graph\<close>, which lacks the graph, the
  resolver of the module raises neither: both calls end in the \<open>NameError\<close> of the
  first line, before any check is decided.
\<close>

theorem neighbor_check_raises_name_error:
  "distances ex_all_zero = [[0, 0], [0, 0]] \<and> every_row_zero (distances ex_all_zero) \<and>
   shortest_path module_globals ex_all_zero 0 1 ''velocity'' = Inl (NameError ''get_neighs'') \<and>
   neighbors_ok (distances ex_no_graph) \<and> uns_graph ex_no_graph ''velocity_graph'' = None \<and>
   shortest_path module_globals ex_no_graph 0 1 ''velocity'' = Inl (NameError ''get_neighs'')"
proof -
  have "distances ex_all_zero = [[0, 0], [0, 0]]" "every_row_zero (distances ex_all_zero)"
    by (simp_all add: ex_all_zero_def dataset_def every_row_zero_def)
  moreover have "neighbors_ok (distances ex_no_graph)" "uns_graph ex_no_graph ''velocity_graph'' = None"
    by (simp_all add: ex_no_graph_def dataset_def neighbors_ok_def)
  ultimately show ?thesis using shortest_path_name_error by blast
qed

text \<open>
  Claim C10. The claim asks for a key-lookup error when the graph of the key is
  present and its negative graph is absent. The dataset \<open>ex_no_graph_neg\<close> is such
  a dataset, and its neighbor-distance matrix has a positive entry in every row; the
  resolver of the module raises the \<open>NameError\<close> of its first line there, and
  reads neither annotation.
\<close>

theorem missing_negative_graph_raises_name_error:
  "neighbors_ok (distances ex_no_graph_neg) \<and>
   uns_graph ex_no_graph_neg ''velocity_graph'' = Some [[0, 1], [0, 0]] \<and>
   uns_graph ex_no_graph_neg ''velocity_graph_neg'' = None \<and>
   shortest_path module_globals ex_no_graph_neg 0 1 ''velocity'' = Inl (NameError ''get_neighs'')"
proof -
  have "neighbors_ok (distances ex_no_graph_neg)"
    by (simp add: ex_no_graph_neg_def dataset_def neighbors_ok_def)
  moreover have "uns_graph ex_no_graph_neg ''velocity_graph'' = Some [[0, 1], [0, 0]]"
    "uns_graph ex_no_graph_neg ''velocity_graph_neg'' = None"
    by (simp_all add: ex_no_graph_neg_def dataset_def)
  ultimately show ?thesis using shortest_path_name_error by blast
qed

section \<open>The Path Renderer and the failed calls: proofs\<close>

lemma concat_map_if:
  "concat (map (\<lambda>x. if P x then [f x] else []) xs) = map f (filter P xs)"
  by (induction xs) auto

lemma filter_upt_pred: "filter (\<lambda>i. i < n - 1) [0..<n] = [0..<n - 1]"
proof (cases n)
  case 0
  then show ?thesis by simp
next
  case (Suc m)
  have "filter (\<lambda>i. i < m) [0..<m] = [0..<m]" by (rule filter_True) simp
  with Suc show ?thesis by simp
qed

lemma path_arrows_eq:
  assumes "length bx = length by"
  shows "path_arrows bx by st =
    map (\<lambda>i. Arrow (bx ! i) (by ! i) (bx ! (i + 1) - bx ! i) (by ! (i + 1) - by ! i)
        (linewidth st) 0 True (linecolor st) 5) [0..<length bx - 1]"
proof -
  let ?f = "\<lambda>i. Arrow (bx ! i) (by ! i) (bx ! (i + 1) - bx ! i) (by ! (i + 1) - by ! i)
        (linewidth st) 0 True (linecolor st) 5"
  let ?n = "length bx"
  have z: "zip [0..<length (zip bx by)] (zip bx by) = map (\<lambda>i. (i, (bx ! i, by ! i))) [0..<?n]"
    using assms by (auto intro!: nth_equalityI)
  have "path_arrows bx by st =
     concat (map (\<lambda>i. if i < ?n - 1 then [?f i] else []) [0..<?n])"
    unfolding path_arrows_def z map_map
    by (rule arg_cong[where f=concat], rule map_cong) auto
  also have "\<dots> = map ?f (filter (\<lambda>i. i < ?n - 1) [0..<?n])"
    by (rule concat_map_if)
  finally show ?thesis unfolding filter_upt_pred .
qed

lemma take_rows_length: "take_rows X p = Inr pts \<Longrightarrow> length pts = length p"
  by (auto simp: take_rows_def split: if_splits)

lemma path_arrows_points:
  "path_arrows (map fst pts) (map snd pts) st = map (arrow_between pts st) [0..<length pts - 1]"
proof -
  have "path_arrows (map fst pts) (map snd pts) st =
      map (\<lambda>i. Arrow (map fst pts ! i) (map snd pts ! i) (map fst pts ! (i + 1) - map fst pts ! i)
         (map snd pts ! (i + 1) - map snd pts ! i) (linewidth st) 0 True (linecolor st) 5)
       [0..<length (map fst pts) - 1]"
    by (rule path_arrows_eq) simp
  also have "\<dots> = map (arrow_between pts st) [0..<length pts - 1]"
    by (rule map_cong) (auto simp: arrow_between_def)
  finally show ?thesis .
qed

lemma select_loop_error:
  "select_loop vocabulary verbose n_plot scores pos_seen msgs = Some y \<Longrightarrow>
   (case snd y of None \<Rightarrow> True | Some e \<Rightarrow> e = EmptyReduction \<or> (\<exists>k. e = KeyError k))"
proof (induction rule: select_loop.raw_induct[rotated, consumes 1, case_names step])
  case (step f vocabulary verbose n_plot scores pos_seen msgs y)
  note IH = step(1) and eq = step(2)
  show ?case
  proof (cases "int (length pos_seen) < n_plot")
    case False
    with eq show ?thesis by auto
  next
    case True
    note lt = this
    show ?thesis
    proof (cases "np_argmin (cells scores)")
      case (Inl e)
      with eq lt show ?thesis by (auto simp: np_argmin_def split: if_splits)
    next
      case (Inr k)
      show ?thesis
      proof (cases "map_of vocabulary (snd (unravel_index k scores))")
        case None
        with eq lt Inr show ?thesis by auto
      next
        case (Some aa)
        with eq lt Inr show ?thesis by (auto split: if_splits dest: IH)
      qed
    qed
  qed
qed

lemma draw_on_surface:
  assumes "\<forall>a. ax = Some a \<longrightarrow> a < length (axes_store w)"
  shows "(case (case ax of None \<Rightarrow> plt_figure w | Some a \<Rightarrow> (w, a)) of
       (w1, a) \<Rightarrow> (add_artists w1 a arts, Inr a :: error + nat)) = (w', r) \<Longrightarrow>
     r = Inr (surface_of ax w) \<and> axes_store w' ! surface_of ax w = drawn_before ax w @ arts \<and>
     saved w' = saved w \<and> logged w' = logged w"
  using assms
  by (cases ax) (auto simp: plt_figure_def add_artists_def surface_of_def drawn_before_def nth_append)

lemma embedding_point_row:
  assumes "in_embedding X i"
  shows "X ! nat (if i < 0 then i + int (length X) else i) = embedding_point X i"
proof (cases "0 \<le> i")
  case True
  then show ?thesis by (simp add: embedding_point_def)
next
  case False
  with assms have "nat (i + int (length X)) = length X - nat (- i)"
    by (simp add: in_embedding_def nat_diff_distrib' nat_add_distrib)
  with False show ?thesis by (simp add: embedding_point_def)
qed

lemma take_rows_points:
  assumes "list_all (in_embedding X) p"
  shows "take_rows X p = Inr (map (embedding_point X) p)"
proof -
  from assms have r: "\<forall>i \<in> set p. - int (length X) \<le> i \<and> i < int (length X)"
    by (simp add: list_all_iff in_embedding_def)
  have "map (\<lambda>i. X ! nat (if i < 0 then i + int (length X) else i)) p = map (embedding_point X) p"
    using assms by (intro map_cong refl embedding_point_row) (simp add: list_all_iff)
  with r show ?thesis by (simp add: take_rows_def)
qed

lemma draw_path_resolved:
  assumes "path = Some p \<or> (path = None \<and> source_idx = Some s \<and> target_idx = Some t \<and>
      shortest_path globals adata s t vkey = Inr q \<and> p = map int q)"
    and "obsm adata (''X_'' @ basis) = Some X" and "take_rows X p = Inr pts"
  shows "draw_path globals adata path source_idx target_idx basis vkey ax st w =
    (case (case ax of None \<Rightarrow> plt_figure w | Some a \<Rightarrow> (w, a)) of
       (w1, a) \<Rightarrow> (add_artists w1 a (map (arrow_between pts st) [0..<length p - 1] @
           [path_scatter (map fst pts) (map snd pts) st]), Inr a))"
  using assms take_rows_length[OF assms(3)]
  by (auto simp: draw_path_def path_arrows_points split: prod.splits option.splits)

lemma draw_path_layers:
  assumes "path = Some p \<or> (path = None \<and> source_idx = Some s \<and> target_idx = Some t \<and>
      shortest_path globals adata s t vkey = Inr q \<and> p = map int q)"
    and "obsm adata (''X_'' @ basis) = Some X" and "take_rows X p = Inr pts"
    and "\<forall>a. ax = Some a \<longrightarrow> a < length (axes_store w)"
  shows "\<exists>w'. draw_path globals adata path source_idx target_idx basis vkey ax st w =
       (w', Inr (surface_of ax w)) \<and>
     axes_store w' ! surface_of ax w =
       drawn_before ax w @ map (arrow_between pts st) [0..<length p - 1] @
         [path_scatter (map fst pts) (map snd pts) st]"
proof -
  obtain w' r where d: "draw_path globals adata path source_idx target_idx basis vkey ax st w = (w', r)"
    by (cases "draw_path globals adata path source_idx target_idx basis vkey ax st w")
  from draw_on_surface[OF assms(4) d[unfolded draw_path_resolved[OF assms(1-3)]]] d
  show ?thesis by auto
qed

lemma collect_error: "collect (symbol_at m pos) seqs = Inl e \<Longrightarrow> e \<noteq> AssertionError"
  by (induction seqs arbitrary: e)
     (auto simp: symbol_at_def split: sum.splits option.splits if_splits)

lemma plot_positions_error:
  "plot_positions m namespace ps adata w = (st, Some e) \<Longrightarrow> e \<noteq> AssertionError"
proof (induction ps arbitrary: adata w st e)
  case Nil
  then show ?case by simp
next
  case (Cons pos ps)
  show ?case
  proof (cases "obs adata ''seqs_msa''")
    case None
    with Cons.prems show ?thesis by auto
  next
    case (Some seqs)
    show ?thesis
    proof (cases "collect (symbol_at m pos) seqs")
      case (Inl e')
      with Cons.prems Some collect_error[OF Inl] show ?thesis by auto
    next
      case (Inr column)
      show ?thesis
      proof (cases "obsm adata ''X_umap''")
        case None
        with Cons.prems Some Inr show ?thesis by (auto simp: sc_pl_umap_def)
      next
        case (Some X)
        with Cons.prems \<open>obs adata ''seqs_msa'' = Some seqs\<close> Inr show ?thesis
          by (auto simp: sc_pl_umap_def dest: Cons.IH)
      qed
    qed
  qed
qed

lemma map_sum_Inl_iff: "map_sum id g x = Inl e \<longleftrightarrow> x = Inl e"
  by (cases x) auto

lemma select_positions_error:
  "select_positions vocabulary verbose n_plot scores = Some (st, Some e) \<Longrightarrow> e \<noteq> AssertionError"
  using select_loop_error[of vocabulary verbose n_plot scores "[]" "[]"]
  by (auto simp: select_positions_def split: prod.splits)

lemma residue_categories_assertion:
  assumes "residue_categories adata positions n_plot namespace reference verbose w =
     Some ((adata', w'), Some AssertionError)"
  shows "adata' = adata \<and> w' = w"
proof (cases "reference_map adata reference")
  case (Inl e)
  with assms show ?thesis by (simp add: residue_categories_def)
next
  case (Inr m)
  with assms have False
    by (auto simp: residue_categories_def np_argmin_def
        split: option.splits sum.splits if_splits prod.splits
        dest: plot_positions_error select_positions_error)
  then show ?thesis ..
qed

lemma draw_path_validation:
  assumes "draw_path globals adata path source_idx target_idx basis vkey ax st w = (w', Inl e)"
    and "e = CorruptedNeighborGraph \<or> e = MustRunVelocityGraph \<or> e = MustProvidePath"
  shows "w' = w"
  using assms
  by (auto simp: draw_path_def take_rows_def map_sum_Inl_iff
      split: if_splits option.splits sum.splits prod.splits)

lemma draw_path_basis:
  assumes "draw_path globals adata path source_idx target_idx basis vkey ax st w =
    (w', Inl (BasisNotFound b))"
  shows "saved w' = saved w \<and> logged w' = logged w \<and>
    axes_store w' = (case ax of Some a \<Rightarrow> axes_store w | None \<Rightarrow> axes_store w @ [[]])"
proof -
  have n: "shortest_path globals adata s t vkey \<noteq> Inl (BasisNotFound b)" for s t
    by (auto simp: shortest_path_def load_global_def np_min_def sparse_sub_def
        from_scipy_sparse_matrix_def
        split: option.splits sum.splits if_splits list.splits dest: nx_shortest_path_error)
  from assms show ?thesis
    by (auto simp: draw_path_def take_rows_def plt_figure_def n map_sum_Inl_iff
        split: if_splits option.splits sum.splits prod.splits)
qed

text \<open>
  Claim C8. A path, given or resolved, of \<open>n\<close> indices that name points of the
  embedding is drawn on the surface of the call, after what the surface held, as
  \<open>n - 1\<close> arrows and then one scatter layer. The arrow \<open>i\<close> starts at the point
  that the index \<open>i\<close> of the path names and ends at the point that the index
  \<open>i + 1\<close> names; its head width is 0 and its z-order is 5. The scatter layer holds
  the coordinates of the \<open>n\<close> points that the path names, in the order of the path,
  with z-order 10, above the arrows.
\<close>

theorem path_renderer_layers:
  assumes "path = Some p \<or> (path = None \<and> source_idx = Some s \<and> target_idx = Some t \<and>
      shortest_path globals adata s t vkey = Inr q \<and> p = map int q)"
    and "obsm adata (''X_'' @ basis) = Some X"
    and "list_all (in_embedding X) p"
    and "\<forall>a. ax = Some a \<longrightarrow> a < length (axes_store w)"
  shows "\<exists>w' arrows.
     draw_path globals adata path source_idx target_idx basis vkey ax st w =
       (w', Inr (surface_of ax w)) \<and>
     axes_store w' ! surface_of ax w =
       drawn_before ax w @ arrows @
         [Scatter (map (\<lambda>i. fst (embedding_point X i)) p) (map (\<lambda>i. snd (embedding_point X i)) p)
            (size_arg st) (color st) (cmap st) (edgecolor st) (1 / 2) 10] \<and>
     length arrows = length p - 1 \<and>
     length (map (\<lambda>i. fst (embedding_point X i)) p) = length p \<and>
     length (map (\<lambda>i. snd (embedding_point X i)) p) = length p \<and>
     (\<forall>i < length p - 1.
        arrows ! i =
          Arrow (fst (embedding_point X (p ! i))) (snd (embedding_point X (p ! i)))
            (fst (embedding_point X (p ! (i + 1))) - fst (embedding_point X (p ! i)))
            (snd (embedding_point X (p ! (i + 1))) - snd (embedding_point X (p ! i)))
            (linewidth st) 0 True (linecolor st) 5 \<and>
        arrow_head_width (arrows ! i) = 0 \<and>
        arrow_zorder (arrows ! i) < 10)"
proof -
  let ?pts = "map (embedding_point X) p"
  let ?arrows = "map (arrow_between ?pts st) [0..<length p - 1]"
  from draw_path_layers [OF assms(1,2) take_rows_points[OF assms(3)] assms(4)] obtain w' where
    d: "draw_path globals adata path source_idx target_idx basis vkey ax st w =
       (w', Inr (surface_of ax w))"
    and a: "axes_store w' ! surface_of ax w =
       drawn_before ax w @ ?arrows @ [path_scatter (map fst ?pts) (map snd ?pts) st]"
    by blast
  have s: "path_scatter (map fst ?pts) (map snd ?pts) st =
      Scatter (map (\<lambda>i. fst (embedding_point X i)) p) (map (\<lambda>i. snd (embedding_point X i)) p)
        (size_arg st) (color st) (cmap st) (edgecolor st) (1 / 2) 10"
    by (simp add: path_scatter_def comp_def)
  have l: "length ?arrows = length p - 1" by simp
  have e: "\<forall>i < length p - 1.
        ?arrows ! i =
          Arrow (fst (embedding_point X (p ! i))) (snd (embedding_point X (p ! i)))
            (fst (embedding_point X (p ! (i + 1))) - fst (embedding_point X (p ! i)))
            (snd (embedding_point X (p ! (i + 1))) - snd (embedding_point X (p ! i)))
            (linewidth st) 0 True (linecolor st) 5 \<and>
        arrow_head_width (?arrows ! i) = 0 \<and>
        arrow_zorder (?arrows ! i) < 10"
    by (simp add: arrow_between_def)
  from d a l e show ?thesis unfolding s by (intro exI[of _ w'] exI[of _ ?arrows]) simp
qed

theorem path_renderer_layers_witness:
  "obsm ex_embedded (''X_'' @ ''umap'') = Some [(0, 0), (1, 2), (3, 1), (5, 4)] \<and>
   list_all (in_embedding [(0, 0), (1, 2), (3, 1), (5, 4)]) [2, 0, - 1] \<and>
   (\<exists>w'. draw_path module_globals ex_embedded (Some [2, 0, - 1]) None None ''umap'' ''velocity'' None
            default_style empty_world = (w', Inr 0) \<and>
      axes_store w' ! 0 =
        [Arrow 3 1 (- 3) (- 1) (1 / 1000) 0 True ''#888888'' 5,
         Arrow 0 0 5 4 (1 / 1000) 0 True ''#888888'' 5,
         Scatter [3, 0, 5] [1, 0, 4] 15 ''white'' None ''black'' (1 / 2) 10])"
proof -
  let ?X = "[(0, 0), (1, 2), (3, 1), (5, 4 :: real)] :: (real \<times> real) list"
  have h2: "obsm ex_embedded (''X_'' @ ''umap'') = Some ?X"
    by (simp add: ex_embedded_def dataset_def)
  have h3: "list_all (in_embedding ?X) [2, 0, - 1]"
    by (simp add: in_embedding_def)
  have h4: "\<forall>a. (None :: nat option) = Some a \<longrightarrow> a < length (axes_store empty_world)"
    by simp
  have h1: "Some [2, 0, - 1] = Some [2, 0, - 1 :: int] \<or> (Some [2, 0, - 1] = None \<and>
      None = Some (0 :: nat) \<and> None = Some (0 :: nat) \<and>
      shortest_path module_globals ex_embedded 0 0 ''velocity'' = Inr [] \<and> [2, 0, - 1] = map int [])"
    by simp
  from path_renderer_layers [OF h1 h2 h3 h4, of default_style]
  obtain w' arrows where
    d: "draw_path module_globals ex_embedded (Some [2, 0, - 1]) None None ''umap'' ''velocity'' None
       default_style empty_world = (w', Inr (surface_of None empty_world))"
    and a: "axes_store w' ! surface_of None empty_world =
       drawn_before None empty_world @ arrows @
         [Scatter (map (\<lambda>i. fst (embedding_point ?X i)) [2, 0, - 1])
            (map (\<lambda>i. snd (embedding_point ?X i)) [2, 0, - 1])
            (size_arg default_style) (color default_style) (cmap default_style)
            (edgecolor default_style) (1 / 2) 10]"
    and l: "length arrows = length [2, 0, - 1 :: int] - 1"
    and e: "\<forall>i < length [2, 0, - 1 :: int] - 1.
        arrows ! i =
          Arrow (fst (embedding_point ?X ([2, 0, - 1] ! i))) (snd (embedding_point ?X ([2, 0, - 1] ! i)))
            (fst (embedding_point ?X ([2, 0, - 1] ! (i + 1))) - fst (embedding_point ?X ([2, 0, - 1] ! i)))
            (snd (embedding_point ?X ([2, 0, - 1] ! (i + 1))) - snd (embedding_point ?X ([2, 0, - 1] ! i)))
            (linewidth default_style) 0 True (linecolor default_style) 5 \<and>
        arrow_head_width (arrows ! i) = 0 \<and>
        arrow_zorder (arrows ! i) < 10"
    by blast
  from e have e0: "arrows ! 0 = Arrow 3 1 (- 3) (- 1) (1 / 1000) 0 True ''#888888'' 5"
    and e1: "arrows ! 1 = Arrow 0 0 5 4 (1 / 1000) 0 True ''#888888'' 5"
    by (simp_all add: embedding_point_def default_style_def eval_nat_numeral)
  from l have "length arrows = 2" by simp
  then have "arrows = [arrows ! 0, arrows ! 1]"
    by (auto simp: list_eq_iff_nth_eq less_Suc_eq eval_nat_numeral)
  with e0 e1 have ar: "arrows = [Arrow 3 1 (- 3) (- 1) (1 / 1000) 0 True ''#888888'' 5,
         Arrow 0 0 5 4 (1 / 1000) 0 True ''#888888'' 5]"
    by simp
  from d a have "draw_path module_globals ex_embedded (Some [2, 0, - 1]) None None ''umap'' ''velocity'' None
            default_style empty_world = (w', Inr 0) \<and>
      axes_store w' ! 0 =
        [Arrow 3 1 (- 3) (- 1) (1 / 1000) 0 True ''#888888'' 5,
         Arrow 0 0 5 4 (1 / 1000) 0 True ''#888888'' 5,
         Scatter [3, 0, 5] [1, 0, 4] 15 ''white'' None ''black'' (1 / 2) 10]"
    unfolding ar
    by (simp add: surface_of_def drawn_before_def empty_world_def embedding_point_def
        default_style_def)
  with h2 h3 show ?thesis by blast
qed

text \<open>
  Claim C7, amended. A call of the renderer that raises the error of the corrupted
  neighbor graph, of the missing graph or of the missing path arguments leaves the
  world as it was. One that raises the error of the missing embedding writes no
  file and draws nothing; a surface given to it is unchanged, but when none was
  given a new, empty surface has been created before the error. A call of the
  overlay that fails its assertion leaves the world and the dataset as they were.
  (The resolver called on its own neither reads nor changes the world.)
\<close>

theorem failed_call_draws_nothing:
  "(draw_path globals adata path source_idx target_idx basis vkey ax st w = (w1, Inl e) \<and>
    (e = CorruptedNeighborGraph \<or> e = MustRunVelocityGraph \<or> e = MustProvidePath) \<longrightarrow> w1 = w) \<and>
   (draw_path globals adata path source_idx target_idx basis vkey ax st w = (w2, Inl (BasisNotFound b)) \<longrightarrow>
      saved w2 = saved w \<and> logged w2 = logged w \<and>
      axes_store w2 = (case ax of Some a \<Rightarrow> axes_store w | None \<Rightarrow> axes_store w @ [[]])) \<and>
   (residue_categories adata' positions n_plot namespace reference verbose w' =
      Some ((adata3, w3), Some AssertionError) \<longrightarrow> adata3 = adata' \<and> w3 = w')"
proof (intro conjI impI)
  assume "draw_path globals adata path source_idx target_idx basis vkey ax st w = (w1, Inl e) \<and>
    (e = CorruptedNeighborGraph \<or> e = MustRunVelocityGraph \<or> e = MustProvidePath)"
  then show "w1 = w" using draw_path_validation by blast
next
  assume d: "draw_path globals adata path source_idx target_idx basis vkey ax st w = (w2, Inl (BasisNotFound b))"
  from draw_path_basis [OF d]
  show "saved w2 = saved w" "logged w2 = logged w"
    "axes_store w2 = (case ax of Some a \<Rightarrow> axes_store w | None \<Rightarrow> axes_store w @ [[]])"
    by simp_all
next
  assume r: "residue_categories adata' positions n_plot namespace reference verbose w' =
      Some ((adata3, w3), Some AssertionError)"
  from residue_categories_assertion [OF r] show "adata3 = adata'" "w3 = w'" by simp_all
qed

theorem failed_call_draws_nothing_witness:
  "draw_path module_globals ex_plain None None (Some 1) ''umap'' ''velocity'' None default_style empty_world =
     (empty_world, Inl MustProvidePath) \<and>
   draw_path module_globals ex_plain (Some [0]) None None ''umap'' ''velocity'' (Some 0) default_style
     (empty_world\<lparr>axes_store := [[]]\<rparr>) =
     (empty_world\<lparr>axes_store := [[]]\<rparr>, Inl (BasisNotFound ''umap'')) \<and>
   residue_categories ex_mismatch None 5 ''residue_categories'' (Some 0) True empty_world =
     Some ((ex_mismatch, empty_world), Some AssertionError)"
proof -
  have e1: "draw_path module_globals ex_plain None None (Some 1) ''umap'' ''velocity'' None default_style empty_world =
     (empty_world, Inl MustProvidePath)"
    by (simp add: draw_path_def)
  have e2: "draw_path module_globals ex_plain (Some [0]) None None ''umap'' ''velocity'' (Some 0) default_style
     (empty_world\<lparr>axes_store := [[]]\<rparr>) =
     (empty_world\<lparr>axes_store := [[]]\<rparr>, Inl (BasisNotFound ''umap''))"
    by (simp add: draw_path_def ex_plain_def dataset_def)
  have "build_pos2msa ''AG'' ''A-C'' = Inl AssertionError"
    by (simp add: build_pos2msa_def enumerate_py_def eval_nat_numeral)
  then have e3: "residue_categories ex_mismatch None 5 ''residue_categories'' (Some 0) True empty_world =
     Some ((ex_mismatch, empty_world), Some AssertionError)"
    by (simp add: residue_categories_def reference_map_def obs_item_def ex_mismatch_def dataset_def)
  from failed_call_draws_nothing [of module_globals ex_plain None None "Some 1" "''umap''" "''velocity''" None
      default_style empty_world empty_world MustProvidePath empty_world "''umap''"
      ex_mismatch None 5 "''residue_categories''" "Some 0" True empty_world ex_mismatch empty_world]
    e1 e2 e3
  show ?thesis by simp
qed

text \<open>
  Claim C7 as stated fails: called without a surface on a dataset that lacks the
  embedding, the renderer raises the error of the missing embedding after it has
  created a new surface.
\<close>

theorem missing_embedding_creates_surface_counterexample:
  "axes_store empty_world = [] \<and>
   draw_path module_globals ex_plain (Some []) None None ''umap'' ''velocity'' None default_style empty_world =
     (empty_world\<lparr>axes_store := [[]]\<rparr>, Inl (BasisNotFound ''umap'')) \<and>
   axes_store (empty_world\<lparr>axes_store := [[]]\<rparr>) \<noteq> axes_store empty_world"
  by (simp add: draw_path_def ex_plain_def dataset_def plt_figure_def empty_world_def)

section \<open>The automatic selection: proofs\<close>

lemma argmin_list_lt: "xs \<noteq> [] \<Longrightarrow> argmin_list xs < length xs"
  by (induction xs rule: argmin_list.induct) auto

lemma argmin_list_le: "y \<in> set xs \<Longrightarrow> xs ! argmin_list xs \<le> y"
proof (induction xs arbitrary: y)
  case Nil
  then show ?case by simp
next
  case (Cons x xs)
  show ?case
  proof (cases xs)
    case Nil
    with Cons.prems show ?thesis by simp
  next
    case (Cons z zs)
    let ?m = "xs ! argmin_list xs"
    have m: "?m \<le> u" if "u \<in> set xs" for u using Cons.IH[OF that] .
    from Cons.prems consider "y = x" | "y \<in> set xs" by auto
    then show ?thesis
    proof cases
      case 1
      then show ?thesis using Cons by (cases "x \<le> ?m") auto
    next
      case 2
      from m[OF 2] show ?thesis using Cons by (cases "x \<le> ?m") auto
    qed
  qed
qed

lemma unravel_flat: "fst (unravel_index k a) * ncols a + snd (unravel_index k a) = k"
  by (simp add: unravel_index_def)

lemma setitem_unravel: "setitem a (unravel_index k a) v = a\<lparr>cells := (cells a)[k := v]\<rparr>"
  by (simp add: setitem_def unravel_flat)

lemma select_loop_step:
  assumes "int (length pos_seen) < n_plot" "cells a \<noteq> []"
    and "map_of vocabulary (argmin_list (cells a) mod ncols a) = Some aa"
  shows "select_loop vocabulary verbose n_plot a pos_seen msgs =
    (if argmin_list (cells a) div ncols a \<in> set pos_seen
     then select_loop vocabulary verbose n_plot
            (a\<lparr>cells := (cells a)[argmin_list (cells a) := PInf]\<rparr>) pos_seen msgs
     else select_loop vocabulary verbose n_plot
            (a\<lparr>cells := (cells a)[argmin_list (cells a) := PInf]\<rparr>)
            (argmin_list (cells a) div ncols a # pos_seen)
            (if verbose
             then msgs @ [''Lowest score '' @ str_nat (Suc (length pos_seen)) @ '': '' @
                          aa @ str_nat (argmin_list (cells a) div ncols a + 1)]
             else msgs))"
  using assms
  apply (subst select_loop.simps)
  apply (simp only: setitem_unravel)
  apply (simp add: np_argmin_def unravel_index_def)
  done

lemma select_loop_done:
  "\<not> int (length pos_seen) < n_plot \<Longrightarrow>
   select_loop vocabulary verbose n_plot a pos_seen msgs = Some ((a, pos_seen, msgs), None)"
  by (subst select_loop.simps) simp


lemma flat_lt: "well_shaped a \<Longrightarrow> in_array a rc \<Longrightarrow> flat a rc < length (cells a)"
proof -
  assume w: "well_shaped a" and i: "in_array a rc"
  then have "fst rc * ncols a + snd rc < fst rc * ncols a + ncols a" by (simp add: in_array_def)
  also have "\<dots> = Suc (fst rc) * ncols a" by simp
  also have "\<dots> \<le> nrows a * ncols a" using i by (intro mult_le_mono1) (simp add: in_array_def)
  finally show ?thesis using w by (simp add: flat_def well_shaped_def)
qed

lemma flat_div_mod: "in_array a rc \<Longrightarrow> flat a rc div ncols a = fst rc \<and> flat a rc mod ncols a = snd rc"
  by (simp add: flat_def in_array_def)


lemma unflat:
  assumes "well_shaped a" "k < length (cells a)"
  shows "in_array a (k div ncols a, k mod ncols a)" "flat a (k div ncols a, k mod ncols a) = k"
proof -
  from assms have lt: "k < nrows a * ncols a" by (simp add: well_shaped_def)
  then have nc: "0 < ncols a" by (cases "ncols a") auto
  from lt have "k div ncols a < nrows a" by (simp add: less_mult_imp_div_less)
  with nc show "in_array a (k div ncols a, k mod ncols a)" by (simp add: in_array_def)
  show "flat a (k div ncols a, k mod ncols a) = k" by (simp add: flat_def)
qed





lemma finite_count_update:
  "k < length xs \<Longrightarrow> xs ! k < PInf \<Longrightarrow> finite_count (xs[k := PInf]) < finite_count xs"
proof (induction xs arbitrary: k)
  case Nil
  then show ?case by simp
next
  case (Cons x xs)
  show ?case
  proof (cases k)
    case 0
    with Cons.prems show ?thesis by (simp add: finite_count_def)
  next
    case (Suc j)
    with Cons.prems Cons.IH[of j] show ?thesis by (simp add: finite_count_def)
  qed
qed

lemma unseen_row:
  assumes "distinct seen" "set seen \<subseteq> {..<n}" "length seen < n"
  shows "\<exists>r<n. r \<notin> set seen"
proof (rule ccontr)
  assume "\<not> (\<exists>r<n. r \<notin> set seen)"
  then have "{..<n} \<subseteq> set seen" by auto
  then have "card {..<n} \<le> card (set seen)" by (intro card_mono) auto
  with assms(1,3) show False by (simp add: distinct_card)
qed

lemma select_loop_terminates:
  assumes "0 < ncols a" "well_shaped a" "distinct seen" "set seen \<subseteq> {..<nrows a}"
    and "\<forall>k<length (cells a). cells a ! k = PInf \<longrightarrow> k div ncols a \<in> set seen"
    and "covers_columns vocabulary a" "n_plot \<le> int (nrows a)"
  shows "\<exists>st. select_loop vocabulary verbose n_plot a seen msgs = Some (st, None)"
  using assms
proof (induction "finite_count (cells a)" arbitrary: a seen msgs rule: less_induct)
  case less
  show ?case
  proof (cases "int (length seen) < n_plot")
    case False
    then show ?thesis by (simp add: select_loop_done)
  next
    case True
    let ?xs = "cells a"
    let ?m = "argmin_list ?xs"
    from True less.prems(7) have "length seen < nrows a" by simp
    from unseen_row[OF less.prems(3,4) this] obtain r where r: "r < nrows a" "r \<notin> set seen" by auto
    let ?k0 = "flat a (r, 0)"
    have ia: "in_array a (r, 0)" using r less.prems(1) by (simp add: in_array_def)
    have k0: "?k0 < length ?xs" using flat_lt[OF less.prems(2) ia] .
    then have ne: "?xs \<noteq> []" by auto
    have "?k0 div ncols a = r" using flat_div_mod[OF ia] by simp
    with less.prems(5) k0 r have "?xs ! ?k0 \<noteq> PInf" by auto
    then have f0: "?xs ! ?k0 < PInf" by (cases "?xs ! ?k0") (auto simp: less_score_def less_eq_score_def)
    have mlt: "?m < length ?xs" using ne by (rule argmin_list_lt)
    have "?xs ! ?m \<le> ?xs ! ?k0" using k0 by (intro argmin_list_le) simp
    with f0 have fm: "?xs ! ?m < PInf" by simp
    from unflat[OF less.prems(2) mlt] have um: "?m div ncols a < nrows a" "?m mod ncols a < ncols a"
      by (simp_all add: in_array_def)
    with less.prems(6) obtain aa where aa: "map_of vocabulary (?m mod ncols a) = Some aa"
      by (auto simp: covers_columns_def)
    let ?a1 = "a\<lparr>cells := ?xs[?m := PInf]\<rparr>"
    have dec: "finite_count (cells ?a1) < finite_count ?xs"
      using finite_count_update[OF mlt fm] by simp
    have w1: "well_shaped ?a1" using less.prems(2) by (simp add: well_shaped_def)
    have c1: "covers_columns vocabulary ?a1" using less.prems(6) by (simp add: covers_columns_def)
    note step = select_loop_step[OF True ne aa, of verbose msgs]
    show ?thesis
    proof (cases "?m div ncols a \<in> set seen")
      case True
      have i5: "\<forall>k<length (cells ?a1). cells ?a1 ! k = PInf \<longrightarrow> k div ncols ?a1 \<in> set seen"
        using less.prems(5) True mlt by (auto simp: nth_list_update split: if_splits)
      from less.hyps[OF dec _ w1 less.prems(3) _ i5 c1, of msgs] less.prems(1,4,7) step True
      show ?thesis by simp
    next
      case False
      let ?seen1 = "?m div ncols a # seen"
      have i5: "\<forall>k<length (cells ?a1). cells ?a1 ! k = PInf \<longrightarrow> k div ncols ?a1 \<in> set ?seen1"
        using less.prems(5) mlt by (auto simp: nth_list_update split: if_splits)
      have d1: "distinct ?seen1" using less.prems(3) False by simp
      have s1: "set ?seen1 \<subseteq> {..<nrows ?a1}" using less.prems(4) um by simp
      from less.hyps[OF dec _ w1 d1 s1 i5 c1] less.prems(1,7) step False
      show ?thesis by simp
    qed
  qed
qed

lemma select_loop_diverges_aux:
  assumes "select_loop vocabulary verbose n_plot a seen msgs = Some y"
  shows "\<not> (0 < ncols a \<and> 0 < nrows a \<and> well_shaped a \<and> distinct seen \<and>
            set seen \<subseteq> {..<nrows a} \<and> covers_columns vocabulary a \<and> int (nrows a) < n_plot)"
  using assms
proof (induction rule: select_loop.raw_induct[rotated, consumes 1, case_names step])
  case (step f vocabulary verbose n_plot a seen msgs y)
  note IH = step(1) and eq = step(2)
  show ?case
  proof
    assume J: "0 < ncols a \<and> 0 < nrows a \<and> well_shaped a \<and> distinct seen \<and>
            set seen \<subseteq> {..<nrows a} \<and> covers_columns vocabulary a \<and> int (nrows a) < n_plot"
    let ?xs = "cells a"
    let ?m = "argmin_list ?xs"
    from J have "length seen \<le> nrows a"
      by (metis card_lessThan card_mono distinct_card finite_lessThan)
    with J have lt: "int (length seen) < n_plot" by simp
    from J have len: "length ?xs = nrows a * ncols a" by (simp add: well_shaped_def)
    with J have ne: "?xs \<noteq> []" by auto
    have mlt: "?m < length ?xs" using ne by (rule argmin_list_lt)
    from J have ws: "well_shaped a" by simp
    from unflat[OF ws mlt] have um: "?m div ncols a < nrows a" "?m mod ncols a < ncols a"
      by (simp_all add: in_array_def)
    with J obtain aa where aa: "map_of vocabulary (?m mod ncols a) = Some aa"
      by (auto simp: covers_columns_def)
    let ?a1 = "a\<lparr>cells := ?xs[?m := PInf]\<rparr>"
    have J1: "0 < ncols ?a1 \<and> 0 < nrows ?a1 \<and> well_shaped ?a1 \<and> covers_columns vocabulary ?a1 \<and>
        int (nrows ?a1) < n_plot"
      using J by (simp add: well_shaped_def covers_columns_def)
    show False
    proof (cases "?m div ncols a \<in> set seen")
      case True
      with eq lt ne aa have "f vocabulary verbose n_plot ?a1 seen msgs = Some y"
        by (simp add: np_argmin_def setitem_unravel unravel_index_def setitem_def)
      from IH[OF this] J J1 show False by simp
    next
      case False
      with eq lt ne aa obtain msgs1 where
        "f vocabulary verbose n_plot ?a1 (?m div ncols a # seen) msgs1 = Some y"
        by (simp add: np_argmin_def unravel_index_def setitem_def)
      from IH[OF this] J J1 False um show False by simp
    qed
  qed
qed

lemma select_loop_diverges:
  assumes "0 < ncols a" "0 < nrows a" "well_shaped a" "covers_columns vocabulary a"
    "int (nrows a) < n_plot"
  shows "select_loop vocabulary verbose n_plot a [] msgs = None"
proof (cases "select_loop vocabulary verbose n_plot a [] msgs")
  case None
  then show ?thesis .
next
  case (Some y)
  from select_loop_diverges_aux[OF Some] assms show ?thesis by simp
qed

lemma initially_finite:
  "all_finite a \<Longrightarrow> \<forall>k<length (cells a). cells a ! k = PInf \<longrightarrow> k div ncols a \<in> set []"
proof (intro allI impI)
  fix k assume a: "all_finite a" and k: "k < length (cells a)" and p: "cells a ! k = PInf"
  from k have "cells a ! k \<in> set (cells a)" by simp
  with a have "cells a ! k < PInf" by (simp add: all_finite_def)
  with p show "k div ncols a \<in> set []" by simp
qed

lemma selection_terminates_iff:
  assumes "well_shaped a" "0 < nrows a" "0 < ncols a" "all_finite a" "covers_columns vocabulary a"
  shows "(n_plot \<le> int (nrows a) \<longrightarrow>
           (\<exists>st. select_positions vocabulary verbose n_plot a = Some (st, None))) \<and>
         (int (nrows a) < n_plot \<longrightarrow> select_positions vocabulary verbose n_plot a = None)"
proof (intro conjI impI)
  assume le: "n_plot \<le> int (nrows a)"
  from select_loop_terminates[OF assms(3,1) _ _ initially_finite[OF assms(4)] assms(5) le, of verbose "[]"]
  obtain st where "select_loop vocabulary verbose n_plot a [] [] = Some (st, None)" by auto
  then show "\<exists>st. select_positions vocabulary verbose n_plot a = Some (st, None)"
    by (cases st) (auto simp: select_positions_def)
next
  assume "int (nrows a) < n_plot"
  from select_loop_diverges[OF assms(3,2,1,5) this]
  show "select_positions vocabulary verbose n_plot a = None"
    by (simp add: select_positions_def)
qed

lemma fin_less [simp]: "Fin x < Fin y \<longleftrightarrow> x < y" "Fin x < PInf" "\<not> PInf < z"
  "Fin x \<le> Fin y \<longleftrightarrow> x \<le> y" "z \<le> PInf" "\<not> PInf \<le> Fin x"
  by (auto simp: less_score_def less_eq_score_def split: score.splits)



lemma argmin_list_constant: "\<forall>x\<in>set xs. x = v \<Longrightarrow> argmin_list xs = 0"
  by (induction xs rule: argmin_list.induct) auto

lemma select_loop_infinite_aux:
  assumes "select_loop vocabulary verbose n_plot a seen msgs = Some y"
  shows "\<not> ((\<forall>x\<in>set (cells a). x = PInf) \<and> cells a \<noteq> [] \<and> 0 < ncols a \<and>
            set seen \<subseteq> {0} \<and> distinct seen \<and> 1 < n_plot \<and> map_of vocabulary 0 \<noteq> None)"
  using assms
proof (induction rule: select_loop.raw_induct[rotated, consumes 1, case_names step])
  case (step f vocabulary verbose n_plot a seen msgs y)
  note IH = step(1) and eq = step(2)
  show ?case
  proof
    assume J: "(\<forall>x\<in>set (cells a). x = PInf) \<and> cells a \<noteq> [] \<and> 0 < ncols a \<and>
            set seen \<subseteq> {0} \<and> distinct seen \<and> 1 < n_plot \<and> map_of vocabulary 0 \<noteq> None"
    then have m: "argmin_list (cells a) = 0" using argmin_list_constant by blast
    from J have "card (set seen) \<le> card {0 :: nat}" by (intro card_mono) auto
    with J have "length seen \<le> 1" by (simp add: distinct_card)
    with J have lt: "int (length seen) < n_plot" by simp
    from J obtain aa where aa: "map_of vocabulary 0 = Some aa" by auto
    let ?a1 = "a\<lparr>cells := (cells a)[0 := PInf]\<rparr>"
    have J1: "(\<forall>x\<in>set (cells ?a1). x = PInf) \<and> cells ?a1 \<noteq> [] \<and> 0 < ncols ?a1"
      using J by (auto dest!: set_update_subset_insert[THEN subsetD])
    show False
    proof (cases "0 \<in> set seen")
      case True
      with eq lt J aa m have "f vocabulary verbose n_plot ?a1 seen msgs = Some y"
        by (simp add: np_argmin_def unravel_index_def setitem_def)
      from IH[OF this] J J1 show False by simp
    next
      case False
      with eq lt J aa m obtain msgs1 where
        "f vocabulary verbose n_plot ?a1 (0 # seen) msgs1 = Some y"
        by (simp add: np_argmin_def unravel_index_def setitem_def)
      from IH[OF this] J J1 False show False by simp
    qed
  qed
qed

lemma infinite_cells_diverge:
  "select_positions ex_vocabulary True 2 ex_infinite = None"
proof (cases "select_loop ex_vocabulary True 2 ex_infinite [] []")
  case None
  then show ?thesis by (simp add: select_positions_def)
next
  case (Some y)
  from select_loop_infinite_aux[OF Some] have False
    by (simp add: ex_infinite_def ex_vocabulary_def)
  then show ?thesis ..
qed



text \<open>
  Claim C9, amended. For an array with at least one row and one column, all of whose
  cells are below infinity, and a vocabulary that has every column: when \<^verbatim>\<open>n_plot\<close>
  is at most the number of rows the selection ends and returns, and when \<^verbatim>\<open>n_plot\<close>
  is greater it runs forever.
\<close>

theorem selection_ends_iff_enough_rows:
  assumes "well_shaped a" and "0 < nrows a" and "0 < ncols a" and "all_finite a"
    and "covers_columns vocabulary a"
  shows "(n_plot \<le> int (nrows a) \<longrightarrow>
           (\<exists>st. select_positions vocabulary verbose n_plot a = Some (st, None))) \<and>
         (int (nrows a) < n_plot \<longrightarrow> select_positions vocabulary verbose n_plot a = None)"
  using assms by (rule selection_terminates_iff)

theorem selection_ends_iff_enough_rows_witness:
  "well_shaped ex_two_rows \<and> 0 < nrows ex_two_rows \<and> 0 < ncols ex_two_rows \<and>
   all_finite ex_two_rows \<and> covers_columns ex_vocabulary ex_two_rows \<and>
   (2 :: int) \<le> int (nrows ex_two_rows) \<and> int (nrows ex_two_rows) < 3 \<and>
   (\<exists>st. select_positions ex_vocabulary True 2 ex_two_rows = Some (st, None)) \<and>
   select_positions ex_vocabulary True 3 ex_two_rows = None"
proof -
  have h: "well_shaped ex_two_rows" "0 < nrows ex_two_rows" "0 < ncols ex_two_rows"
    "all_finite ex_two_rows" "covers_columns ex_vocabulary ex_two_rows"
    by (simp_all add: all_finite_def well_shaped_def covers_columns_def ex_two_rows_def
        ex_vocabulary_def)
  have n: "(2 :: int) \<le> int (nrows ex_two_rows)" "int (nrows ex_two_rows) < 3"
    by (simp_all add: ex_two_rows_def)
  from selection_ends_iff_enough_rows [OF h, of 2 True] n(1)
  have a: "\<exists>st. select_positions ex_vocabulary True 2 ex_two_rows = Some (st, None)" by blast
  from selection_ends_iff_enough_rows [OF h, of 3 True] n(2)
  have b: "select_positions ex_vocabulary True 3 ex_two_rows = None" by blast
  from h n a b show ?thesis by blast
qed

text \<open>
  Claim C9 as stated fails in both directions. On an array without rows the
  selection of one position does not run forever: \<^verbatim>\<open>np.argmin\<close> raises. And on an
  array of two rows that holds infinities only, the selection of two positions does
  run forever although there are rows enough.
\<close>

theorem selection_ends_counterexample:
  "nrows ex_empty = 0 \<and>
   select_positions ex_vocabulary True 1 ex_empty = Some ((ex_empty, [], []), Some EmptyReduction) \<and>
   nrows ex_infinite = 2 \<and> well_shaped ex_infinite \<and>
   select_positions ex_vocabulary True 2 ex_infinite = None"
proof -
  have "select_positions ex_vocabulary True 1 ex_empty = Some ((ex_empty, [], []), Some EmptyReduction)"
    by (simp add: select_positions_def select_loop.simps np_argmin_def ex_empty_def)
  with infinite_cells_diverge show ?thesis
    by (simp add: ex_empty_def ex_infinite_def well_shaped_def)
qed

section \<open>The scaling of the heatmap: proofs\<close>

















section \<open>The reference alignment: proofs\<close>

lemma gap_free_simps [simp]:
  "gap_free [] = []"
  "gap_free ((idx, ch) # ps) = (if ch = CHR ''-'' then gap_free ps else (idx, ch) # gap_free ps)"
  by (simp_all add: gap_free_def)

lemma pos2msa_loop_append:
  "take (length (gap_free ps)) (drop j raw) = map snd (gap_free ps) \<Longrightarrow>
   length (gap_free ps) \<le> length raw - j \<Longrightarrow>
   pos2msa_loop raw (ps @ qs) m j =
   pos2msa_loop raw qs
     (\<lambda>i. if j \<le> i \<and> i < j + length (gap_free ps) then Some (map fst (gap_free ps) ! (i - j)) else m i)
     (j + length (gap_free ps))"
proof (induction ps arbitrary: m j)
  case Nil
  have "(\<lambda>i. if j \<le> i \<and> i < j + length (gap_free []) then Some (map fst (gap_free []) ! (i - j)) else m i) = m"
    by (auto simp: fun_eq_iff)
  then show ?case by simp
next
  case (Cons p ps)
  obtain idx ch where p: "p = (idx, ch)" by (cases p)
  show ?case
  proof (cases "ch = CHR ''-''")
    case True
    with Cons p show ?thesis by (simp cong: if_cong)
  next
    case False
    from Cons.prems False p have lt: "j < length raw" by (simp cong: if_cong)
    from Cons.prems False p lt have hd: "raw ! j = ch"
      by (simp add: take_Suc_conv_app_nth Cons_nth_drop_Suc[symmetric])
    from Cons.prems False p lt have tl: "take (length (gap_free ps)) (drop (Suc j) raw) = map snd (gap_free ps)"
      by (simp add: Cons_nth_drop_Suc[symmetric])
    from Cons.prems False p lt have le: "length (gap_free ps) \<le> length raw - Suc j"
      by (simp cong: if_cong)
    have "pos2msa_loop raw ((p # ps) @ qs) m j = pos2msa_loop raw (ps @ qs) (m(j \<mapsto> idx)) (Suc j)"
      using False p lt hd by simp
    also have "\<dots> = pos2msa_loop raw qs
       (\<lambda>i. if Suc j \<le> i \<and> i < Suc j + length (gap_free ps) then Some (map fst (gap_free ps) ! (i - Suc j)) else (m(j \<mapsto> idx)) i)
       (Suc j + length (gap_free ps))"
      by (rule Cons.IH[OF tl le])
    also have "(\<lambda>i. if Suc j \<le> i \<and> i < Suc j + length (gap_free ps) then Some (map fst (gap_free ps) ! (i - Suc j)) else (m(j \<mapsto> idx)) i)
       = (\<lambda>i. if j \<le> i \<and> i < j + length (gap_free (p # ps)) then Some (map fst (gap_free (p # ps)) ! (i - j)) else m i)"
      using False p by (auto simp: fun_eq_iff nth_Cons' Suc_diff_le)
    also have "Suc j + length (gap_free ps) = j + length (gap_free (p # ps))"
      using False p by (simp cong: if_cong)
    finally show ?thesis .
  qed
qed

lemma gap_free_snd:
  "map snd (gap_free (zip [k..<k + length xs] xs)) = degap xs"
proof (induction xs arbitrary: k)
  case Nil
  show ?case by (simp add: degap_def)
next
  case (Cons x xs)
  have "[k..<k + length (x # xs)] = k # [Suc k..<Suc k + length xs]"
    by (subst upt_rec) simp
  with Cons[of "Suc k"] show ?case by (simp add: degap_def)
qed

lemma gap_free_fst:
  "map fst (gap_free (zip [k..<k + length xs] xs)) = filter (\<lambda>idx. xs ! (idx - k) \<noteq> CHR ''-'') [k..<k + length xs]"
proof (induction xs arbitrary: k)
  case Nil
  show ?case by (simp cong: if_cong)
next
  case (Cons x xs)
  have u: "[k..<k + length (x # xs)] = k # [Suc k..<Suc k + length xs]"
    by (subst upt_rec) simp
  have "filter (\<lambda>idx. (x # xs) ! (idx - k) \<noteq> CHR ''-'') [Suc k..<Suc k + length xs]
      = filter (\<lambda>idx. xs ! (idx - Suc k) \<noteq> CHR ''-'') [Suc k..<Suc k + length xs]"
    by (rule filter_cong) (auto simp: nth_Cons' Suc_diff_le)
  with Cons[of "Suc k"] u show ?case by (simp cong: if_cong)
qed

lemma build_pos2msa_ok:
  assumes "degap msa = raw"
  shows "build_pos2msa raw msa =
    Inr (\<lambda>i. if i < length raw then Some (nongap_columns msa ! i) else None)"
proof -
  let ?ps = "enumerate_py msa"
  have z: "?ps = zip [0..<0 + length msa] msa" by (simp add: enumerate_py_def)
  have s: "map snd (gap_free ?ps) = raw" unfolding z gap_free_snd using assms by simp
  have f: "map fst (gap_free ?ps) = nongap_columns msa"
    unfolding z gap_free_fst by (simp add: nongap_columns_def)
  have l: "length (gap_free ?ps) = length raw" using s by (metis length_map)
  have "pos2msa_loop raw (?ps @ []) Map.empty 0 =
     pos2msa_loop raw []
     (\<lambda>i. if 0 \<le> i \<and> i < 0 + length (gap_free ?ps) then Some (map fst (gap_free ?ps) ! (i - 0)) else Map.empty i)
     (0 + length (gap_free ?ps))"
    by (rule pos2msa_loop_append) (simp_all add: s l)
  then show ?thesis by (simp add: build_pos2msa_def f l cong: if_cong)
qed

lemma pos2msa_loop_differs:
  assumes "i < length (gap_free ps)" "j + i < length raw"
    and "snd (gap_free ps ! i) \<noteq> raw ! (j + i)"
  shows "pos2msa_loop raw ps m j = Inl AssertionError"
  using assms
proof (induction ps arbitrary: m j i)
  case Nil
  then show ?case by simp
next
  case (Cons p ps)
  obtain idx ch where p: "p = (idx, ch)" by (cases p)
  show ?case
  proof (cases "ch = CHR ''-''")
    case True
    with Cons p show ?thesis by simp
  next
    case False
    from Cons.prems(2) have lt: "j < length raw" by simp
    show ?thesis
    proof (cases "ch = raw ! j")
      case diff: False
      with False p lt show ?thesis by simp
    next
      case same: True
      with Cons.prems(3) False p have "i \<noteq> 0" by (cases i) auto
      then obtain i' where i: "i = Suc i'" by (cases i) auto
      with Cons.prems False p have "i' < length (gap_free ps)" "Suc j + i' < length raw"
        "snd (gap_free ps ! i') \<noteq> raw ! (Suc j + i')" by simp_all
      from Cons.IH[OF this] same False p lt show ?thesis by simp
    qed
  qed
qed

lemma build_pos2msa_differs:
  assumes "i < length (degap msa)" "i < length raw" "degap msa ! i \<noteq> raw ! i"
  shows "build_pos2msa raw msa = Inl AssertionError"
proof -
  let ?ps = "zip [0..<0 + length msa] msa"
  have s: "map snd (gap_free ?ps) = degap msa" by (rule gap_free_snd)
  then have l: "length (gap_free ?ps) = length (degap msa)" by (metis length_map)
  have "snd (gap_free ?ps ! i) = degap msa ! i"
    using assms(1) l s by (metis nth_map)
  with assms l have "pos2msa_loop raw ?ps Map.empty 0 = Inl AssertionError"
    by (intro pos2msa_loop_differs[of i]) simp_all
  then show ?thesis by (simp add: build_pos2msa_def enumerate_py_def)
qed

text \<open>
  Claim C6. When the gapped reference sequence without its gaps is the raw reference
  sequence, the mapping sends every ungapped position \<open>i\<close> to the column of the
  \<open>i\<close>-th character of the gapped sequence that is not a gap, and holds no other
  key. When some character of the gapped sequence that is not a gap differs from
  the raw character of the same ungapped position, the assertion fails.
\<close>

theorem reference_alignment_mapping:
  "(degap msa = raw \<longrightarrow>
      build_pos2msa raw msa =
        Inr (\<lambda>i. if i < length raw then Some (nongap_columns msa ! i) else None)) \<and>
   (i < length (degap msa') \<and> i < length raw' \<and> degap msa' ! i \<noteq> raw' ! i \<longrightarrow>
      build_pos2msa raw' msa' = Inl AssertionError)"
  using build_pos2msa_ok build_pos2msa_differs by blast

theorem reference_alignment_mapping_witness:
  "degap ''A-C'' = ''AC'' \<and>
   build_pos2msa ''AC'' ''A-C'' = Inr [0 \<mapsto> 0, 1 \<mapsto> 2] \<and>
   nongap_columns ''A-C'' = [0, 2] \<and>
   1 < length (degap ''A-C'') \<and> 1 < length ''AG'' \<and> degap ''A-C'' ! 1 \<noteq> ''AG'' ! 1 \<and>
   build_pos2msa ''AG'' ''A-C'' = Inl AssertionError"
proof -
  have d: "degap ''A-C'' = ''AC''" by (simp add: degap_def)
  have c: "nongap_columns ''A-C'' = [0, 2]"
    by (simp add: nongap_columns_def eval_nat_numeral)
  have m: "1 < length (degap ''A-C'') \<and> 1 < length ''AG'' \<and> degap ''A-C'' ! 1 \<noteq> ''AG'' ! 1"
    by (simp add: degap_def)
  from reference_alignment_mapping [of "''A-C''" "''AC''" 1 "''A-C''" "''AG''"] d m
  have r: "build_pos2msa ''AC'' ''A-C'' =
        Inr (\<lambda>i. if i < length ''AC'' then Some (nongap_columns ''A-C'' ! i) else None)"
    and a: "build_pos2msa ''AG'' ''A-C'' = Inl AssertionError"
    by blast+
  have "(\<lambda>i. if i < length ''AC'' then Some (nongap_columns ''A-C'' ! i) else None) =
      [0 \<mapsto> 0, 1 \<mapsto> 2]"
    unfolding c by (auto simp: fun_eq_iff less_Suc_eq numeral_2_eq_2)
  with r a d c m show ?thesis by simp
qed

end
